theory Spec2Isabelle
  imports Complex_Main "HOL-Library.Char_ord" "HOL-Library.List_Lexorder"
begin

section \<open>Data model\<close>

text \<open>
  The physics step of \<^verbatim>\<open>src/components/Canvas.tsx\<close> (\<^verbatim>\<open>updatePhysics\<close>, lines 54-219).
  JavaScript numbers are modelled as ideal reals: rounding, overflow and NaN are outside
  this part of the model. The collision logic of a pair is modelled a second time over
  numbers with NaN, for the degenerate collision of two balls with the same centre.
\<close>

record Vector2 =
  vx :: real
  vy :: real

text \<open>The fields \<^verbatim>\<open>id\<close> of a ball and of a configuration are \<open>bid\<close> and \<open>cid\<close> here.\<close>

record Ball =
  bid :: string
  pos :: Vector2
  vel :: Vector2
  radius :: real
  color :: string

record SimulationConfig =
  cid :: string
  gravity :: real
  friction :: real
  restitution :: real
  initialSpeed :: real
  ballCount :: real
  ballSize :: real
  rotationSpeed :: real
  shapeType :: string
  vertexCount :: "nat option"

record GlobalSettings =
  gravityMultiplier :: real
  timeScale :: real
  rotationMultiplier :: real
  bouncinessMultiplier :: real

text \<open>The contents of \<^verbatim>\<open>stateRef.current\<close>.\<close>

record SimState =
  balls :: "Ball list"
  rotation :: real

text \<open>
  What the closure \<^verbatim>\<open>updatePhysics\<close> can reach: the two props and the mutable state.
\<close>

record Env =
  config :: SimulationConfig
  globalSettings :: GlobalSettings
  state :: SimState

section \<open>Vector helpers\<close>

text \<open>
  Modelled from the spec: the module \<^verbatim>\<open>../utils/math\<close> that \<^verbatim>\<open>Canvas.tsx\<close> imports
  (\<^verbatim>\<open>add, mult, dot, sub, normalize, mag, generatePolygon, generateStar\<close>) is not among
  the sources. Section 4.1 of the specification: pure functions over \<open>Vector2\<close>, with no
  side effects, \<open>add\<close>, \<open>sub\<close>, \<open>scale(v, k)\<close>, \<open>dot\<close>, \<open>magnitude\<close> (Euclidean
  norm), \<open>normalize\<close> (the zero vector when the magnitude is about zero). The
  specification leaves the threshold of \<open>normalize\<close> open; it is the magnitude 0 here.
\<close>

definition add :: "Vector2 \<Rightarrow> Vector2 \<Rightarrow> Vector2" where
  "add a b = \<lparr>vx = vx a + vx b, vy = vy a + vy b\<rparr>"

definition sub :: "Vector2 \<Rightarrow> Vector2 \<Rightarrow> Vector2" where
  "sub a b = \<lparr>vx = vx a - vx b, vy = vy a - vy b\<rparr>"

definition mult :: "Vector2 \<Rightarrow> real \<Rightarrow> Vector2" where
  "mult v k = \<lparr>vx = vx v * k, vy = vy v * k\<rparr>"

definition dot :: "Vector2 \<Rightarrow> Vector2 \<Rightarrow> real" where
  "dot a b = vx a * vx b + vy a * vy b"

definition mag :: "Vector2 \<Rightarrow> real" where
  "mag v = sqrt (vx v * vx v + vy v * vy v)"

definition normalize :: "Vector2 \<Rightarrow> Vector2" where
  "normalize v =
     (let m = mag v
      in if m = 0 then \<lparr>vx = 0, vy = 0\<rparr> else \<lparr>vx = vx v / m, vy = vy v / m\<rparr>)"

text \<open>
  Modelled from the spec: section 4.2. Polygon: vertex \<open>i\<close> at angle
  \<open>\<theta> + i (2 \<pi> / n)\<close>, radius \<open>R\<close>, offset by \<open>c\<close>. Star: \<open>2 n\<close> vertices alternating
  radius \<open>R\<close> (even index) and \<open>r\<close> (odd index), angular step \<open>\<pi> / n\<close>.
\<close>

definition generatePolygon :: "nat \<Rightarrow> real \<Rightarrow> Vector2 \<Rightarrow> real \<Rightarrow> Vector2 list" where
  "generatePolygon n R c \<theta> =
     map (\<lambda>i. \<lparr>vx = vx c + R * cos (\<theta> + real i * (2 * pi / real n)),
               vy = vy c + R * sin (\<theta> + real i * (2 * pi / real n))\<rparr>) [0..<n]"

definition generateStar :: "nat \<Rightarrow> real \<Rightarrow> real \<Rightarrow> Vector2 \<Rightarrow> real \<Rightarrow> Vector2 list" where
  "generateStar n R r c \<theta> =
     map (\<lambda>i. let rad = (if even i then R else r)
              in \<lparr>vx = vx c + rad * cos (\<theta> + real i * (pi / real n)),
                  vy = vy c + rad * sin (\<theta> + real i * (pi / real n))\<rparr>) [0..<2 * n]"

section \<open>Integrator and boundary collisions (step 3 of \<^verbatim>\<open>updatePhysics\<close>)\<close>

text \<open>Lines 75-88: gravity, linear friction, quadratic drag, then the position.\<close>

definition integrate :: "SimulationConfig \<Rightarrow> GlobalSettings \<Rightarrow> Ball \<Rightarrow> Ball" where
  "integrate cfg gs ball =
     (let v0 = vel ball;
          v1 = v0\<lparr>vy := vy v0 + gravity cfg * gravityMultiplier gs * timeScale gs\<rparr>;
          v2 = mult v1 (1 - friction cfg * timeScale gs);
          velocityMag = mag v2;
          v3 = (if velocityMag > 0.001
                then let dragCoefficient = 0.003;
                         dragAcceleration = mult v2 (- dragCoefficient * velocityMag)
                     in add v2 (mult dragAcceleration (timeScale gs))
                else v2)
      in ball\<lparr>vel := v3, pos := add (pos ball) (mult v3 (timeScale gs))\<rparr>)"

text \<open>Lines 96-103: the edge normal, turned towards the centre.\<close>

definition edgeNormal :: "Vector2 \<Rightarrow> Vector2 \<Rightarrow> Vector2" where
  "edgeNormal p1 p2 =
     (let edge = sub p2 p1;
          n = normalize \<lparr>vx = - vy edge, vy = vx edge\<rparr>
      in if dot n (mult p1 (- 1)) < 0 then \<lparr>vx = vx n * (- 1), vy = vy n * (- 1)\<rparr> else n)"

text \<open>Lines 105-121: one boundary edge \<open>(p1, p2)\<close> against one ball.\<close>

definition collideEdge :: "real \<Rightarrow> Vector2 \<Rightarrow> Vector2 \<Rightarrow> Ball \<Rightarrow> Ball" where
  "collideEdge rest p1 p2 ball =
     (let n = edgeNormal p1 p2;
          relPos = sub (pos ball) p1;
          dist = dot relPos n
      in if dist < radius ball
         then let penetration = radius ball - dist;
                  ball1 = ball\<lparr>pos := add (pos ball) (mult n penetration)\<rparr>;
                  velDotNormal = dot (vel ball1) n
              in if velDotNormal < 0
                 then let reflect = mult n (2 * velDotNormal);
                          v1 = sub (vel ball1) (mult reflect 1);
                          v2 = mult v1 rest;
                          v3 = add v2 (mult n 0.1)
                      in ball1\<lparr>vel := v3\<rparr>
                 else ball1
         else ball)"

text \<open>Lines 93-95: the loop over the edges, edge \<open>i\<close> from vertex \<open>i\<close> to vertex \<open>(i + 1) mod n\<close>.\<close>

definition resolveEdge :: "real \<Rightarrow> Vector2 list \<Rightarrow> nat \<Rightarrow> Ball \<Rightarrow> Ball" where
  "resolveEdge rest localVertices i ball =
     collideEdge rest (localVertices ! i)
       (localVertices ! ((i + 1) mod length localVertices)) ball"

text \<open>Lines 73-123: the body of \<^verbatim>\<open>state.balls.forEach\<close>.\<close>

definition updateBall ::
  "SimulationConfig \<Rightarrow> GlobalSettings \<Rightarrow> Vector2 list \<Rightarrow> Ball \<Rightarrow> Ball" where
  "updateBall cfg gs localVertices ball =
     (let ball1 = integrate cfg gs ball;
          rest = restitution cfg * bouncinessMultiplier gs
      in fold (resolveEdge rest localVertices) [0..<length localVertices] ball1)"

section \<open>Ball-to-ball collisions (step 4 of \<^verbatim>\<open>updatePhysics\<close>)\<close>

text \<open>
  The grid of the source is a JavaScript map from the string \<^verbatim>\<open>cellX,cellY\<close> to an
  array of balls, iterated in insertion order. Here a key is the pair of integers that
  the string prints and \<^verbatim>\<open>key.split(',').map(Number)\<close> reads back, the map is an
  association list in insertion order, and a cell holds the indices of its balls in
  \<^verbatim>\<open>state.balls\<close> (the source holds references to the same objects).
\<close>

type_synonym Grid = "((int \<times> int) \<times> nat list) list"

text \<open>Lines 134-136: the cell of a ball.\<close>

definition cellKey :: "real \<Rightarrow> real \<Rightarrow> Ball \<Rightarrow> int \<times> int" where
  "cellKey cellSize worldBounds ball =
     (\<lfloor>(vx (pos ball) + worldBounds) / cellSize\<rfloor>,
      \<lfloor>(vy (pos ball) + worldBounds) / cellSize\<rfloor>)"

text \<open>Lines 137-140: a new key goes to the end of the map, a known key's cell grows.\<close>

fun gridPush :: "int \<times> int \<Rightarrow> nat \<Rightarrow> Grid \<Rightarrow> Grid" where
  "gridPush key i [] = [(key, [i])]"
| "gridPush key i ((k, cell) # g) =
     (if k = key then (k, cell @ [i]) # g else (k, cell) # gridPush key i g)"

definition gridGet :: "Grid \<Rightarrow> int \<times> int \<Rightarrow> nat list option" where
  "gridGet g key = map_of g key"

definition populateGrid :: "real \<Rightarrow> real \<Rightarrow> Ball list \<Rightarrow> Grid" where
  "populateGrid cellSize worldBounds bs =
     fold (\<lambda>i g. gridPush (cellKey cellSize worldBounds (bs ! i)) i g) [0..<length bs] []"

text \<open>Line 161: the key of an unordered pair of ids.\<close>

definition pairKey :: "string \<Rightarrow> string \<Rightarrow> string" where
  "pairKey a b = (if a < b then a @ ''|'' @ b else b @ ''|'' @ a)"

text \<open>
  Lines 167-202, the collision logic on the two balls of a pair: the new \<open>ballA\<close> and
  the new \<open>ballB\<close>.
\<close>

definition resolvePair :: "Ball \<Rightarrow> Ball \<Rightarrow> Ball \<times> Ball" where
  "resolvePair ballA ballB =
     (let distVec = sub (pos ballB) (pos ballA);
          distance = mag distVec;
          totalRadius = radius ballA + radius ballB
      in if distance < totalRadius
         then let overlap = totalRadius - distance;
                  correctionNormal =
                    (if distance = 0 then \<lparr>vx = 1, vy = 0\<rparr> else normalize distVec);
                  correctionA = mult correctionNormal (- overlap / 2);
                  correctionB = mult correctionNormal (overlap / 2);
                  ballA1 = ballA\<lparr>pos := add (pos ballA) correctionA\<rparr>;
                  ballB1 = ballB\<lparr>pos := add (pos ballB) correctionB\<rparr>;
                  collisionNormal = normalize distVec;
                  relativeVelocity = sub (vel ballB1) (vel ballA1);
                  speedAlongNormal = dot relativeVelocity collisionNormal
              in if speedAlongNormal < 0
                 then let v1n_scalar = dot (vel ballA1) collisionNormal;
                          v2n_scalar = dot (vel ballB1) collisionNormal;
                          v1n_vec = mult collisionNormal v1n_scalar;
                          v2n_vec = mult collisionNormal v2n_scalar;
                          v1t_vec = sub (vel ballA1) v1n_vec;
                          v2t_vec = sub (vel ballB1) v2n_vec
                      in (ballA1\<lparr>vel := add v1t_vec v2n_vec\<rparr>,
                          ballB1\<lparr>vel := add v2t_vec v1n_vec\<rparr>)
                 else (ballA1, ballB1)
         else (ballA, ballB))"

text \<open>The same on the array: the balls at the indices \<open>a\<close> and \<open>b\<close> are replaced.\<close>

definition collide :: "nat \<Rightarrow> nat \<Rightarrow> Ball list \<Rightarrow> Ball list" where
  "collide a b bs =
     (case resolvePair (bs ! a) (bs ! b) of (ballA, ballB) \<Rightarrow> bs[a := ballA, b := ballB])"

text \<open>
  The state of the loops of lines 145-208: the balls, the set \<^verbatim>\<open>checkedPairs\<close>, and a
  log of the pairs for which the collision logic was run, in order. The log is not in
  the source; nothing reads it.
\<close>

record PairState =
  store :: "Ball list"
  checkedPairs :: "string set"
  resolved :: "(nat \<times> nat) list"

text \<open>Lines 158-203: the body of the two innermost loops.\<close>

definition checkPair :: "nat \<Rightarrow> nat \<Rightarrow> PairState \<Rightarrow> PairState" where
  "checkPair a b s =
     (let ballA = store s ! a;
          ballB = store s ! b
      in if bid ballA = bid ballB then s
         else let key = pairKey (bid ballA) (bid ballB)
              in if key \<in> checkedPairs s then s
                 else s\<lparr>checkedPairs := insert key (checkedPairs s),
                        store := collide a b (store s),
                        resolved := resolved s @ [(a, b)]\<rparr>)"

text \<open>Lines 156-157: every ball of the cell against every ball of the neighbour.\<close>

definition checkCells :: "nat list \<Rightarrow> nat list \<Rightarrow> PairState \<Rightarrow> PairState" where
  "checkCells cellBalls neighborBalls s =
     fold (\<lambda>a. fold (\<lambda>b. checkPair a b) neighborBalls) cellBalls s"

text \<open>Lines 151-154: a neighbour that is not in the grid is skipped.\<close>

definition checkNeighbor ::
  "Grid \<Rightarrow> int \<times> int \<Rightarrow> nat list \<Rightarrow> int \<Rightarrow> int \<Rightarrow> PairState \<Rightarrow> PairState" where
  "checkNeighbor grid key cellBalls dx dy s =
     (case gridGet grid (fst key + dx, snd key + dy) of
        None \<Rightarrow> s
      | Some neighborBalls \<Rightarrow> checkCells cellBalls neighborBalls s)"

text \<open>Lines 145-150: one entry of the grid against its 3x3 neighbourhood.\<close>

definition checkCell :: "Grid \<Rightarrow> (int \<times> int) \<times> nat list \<Rightarrow> PairState \<Rightarrow> PairState" where
  "checkCell grid entry s =
     fold (\<lambda>dx. fold (\<lambda>dy. checkNeighbor grid (fst entry) (snd entry) dx dy) [- 1, 0, 1])
       [- 1, 0, 1] s"

text \<open>Lines 126-209.\<close>

definition ballCollisions :: "SimulationConfig \<Rightarrow> real \<Rightarrow> Ball list \<Rightarrow> PairState" where
  "ballCollisions cfg shapeRadius bs =
     (let s0 = \<lparr>store = bs, checkedPairs = {}, resolved = []\<rparr>
      in if length bs > 1
         then let cellSize = ballSize cfg * 2.5;
                  worldBounds = shapeRadius * 1.1;
                  grid = populateGrid cellSize worldBounds bs
              in fold (checkCell grid) grid s0
         else s0)"

section \<open>The whole step\<close>

text \<open>
  Lines 213-218, over the reals. The comparison of the source is false for a position
  that is NaN; \<open>safetyNetN\<close> below is the same pass over numbers with NaN.
\<close>

definition safetyNet :: "real \<Rightarrow> Ball \<Rightarrow> Ball" where
  "safetyNet shapeRadius ball =
     (if mag (pos ball) > shapeRadius + 50
      then ball\<lparr>pos := \<lparr>vx = 0, vy = 0\<rparr>, vel := \<lparr>vx = 0, vy = 0\<rparr>\<rparr>
      else ball)"

text \<open>Line 59.\<close>

definition shapeRadiusOf :: "real \<Rightarrow> real \<Rightarrow> real" where
  "shapeRadiusOf width height = min width height * 0.45"

text \<open>Line 62.\<close>

definition advanceRotation :: "Env \<Rightarrow> real" where
  "advanceRotation env =
     rotation (state env)
       + rotationSpeed (config env) * rotationMultiplier (globalSettings env)
           * timeScale (globalSettings env)"

text \<open>
  Lines 65-70. \<^verbatim>\<open>config.vertexCount || 5\<close> is 5 when the count is absent or 0.
\<close>

definition orDefault :: "nat option \<Rightarrow> nat \<Rightarrow> nat" where
  "orDefault v d = (case v of None \<Rightarrow> d | Some n \<Rightarrow> if n = 0 then d else n)"

definition localVerticesOf :: "real \<Rightarrow> real \<Rightarrow> Env \<Rightarrow> Vector2 list" where
  "localVerticesOf width height env =
     (let cfg = config env;
          shapeRadius = shapeRadiusOf width height
      in if shapeType cfg = ''star''
         then generateStar (orDefault (vertexCount cfg) 5)
                shapeRadius (shapeRadius * 0.4) \<lparr>vx = 0, vy = 0\<rparr> (advanceRotation env)
         else generatePolygon (orDefault (vertexCount cfg) 4)
                shapeRadius \<lparr>vx = 0, vy = 0\<rparr> (advanceRotation env))"

text \<open>The balls after step 3 (lines 73-123).\<close>

definition wallPass :: "real \<Rightarrow> real \<Rightarrow> Env \<Rightarrow> Ball list" where
  "wallPass width height env =
     map (updateBall (config env) (globalSettings env) (localVerticesOf width height env))
       (balls (state env))"

text \<open>The loop state after step 4 (lines 126-209).\<close>

definition pairPass :: "real \<Rightarrow> real \<Rightarrow> Env \<Rightarrow> PairState" where
  "pairPass width height env =
     ballCollisions (config env) (shapeRadiusOf width height) (wallPass width height env)"

text \<open>Lines 54-219.\<close>

definition updatePhysics :: "real \<Rightarrow> real \<Rightarrow> Env \<Rightarrow> Env" where
  "updatePhysics width height env =
     env\<lparr>state :=
       \<lparr>balls = map (safetyNet (shapeRadiusOf width height)) (store (pairPass width height env)),
        rotation = advanceRotation env\<rparr>\<rparr>"

section \<open>The collision logic over numbers with NaN\<close>

text \<open>
  For the degenerate collision of two balls with the same centre, where the question is
  whether NaN can reach a ball: a JavaScript number is a finite real or NaN. Infinities
  and rounding are not modelled.
\<close>

datatype jsnum = Fin real | NaN

text \<open>
  The arithmetic of these numbers: a NaN operand gives NaN, and a comparison with NaN is
  false. A quotient by zero is NaN here: that is \<open>0 / 0\<close>; another numerator would give
  an infinity, which this model does not have, and the collision logic divides by 2 only.
\<close>

fun nadd :: "jsnum \<Rightarrow> jsnum \<Rightarrow> jsnum" where
  "nadd (Fin a) (Fin b) = Fin (a + b)"
| "nadd _ _ = NaN"

fun nsub :: "jsnum \<Rightarrow> jsnum \<Rightarrow> jsnum" where
  "nsub (Fin a) (Fin b) = Fin (a - b)"
| "nsub _ _ = NaN"

fun nmul :: "jsnum \<Rightarrow> jsnum \<Rightarrow> jsnum" where
  "nmul (Fin a) (Fin b) = Fin (a * b)"
| "nmul _ _ = NaN"

fun ndiv :: "jsnum \<Rightarrow> jsnum \<Rightarrow> jsnum" where
  "ndiv (Fin a) (Fin b) = (if b = 0 then NaN else Fin (a / b))"
| "ndiv _ _ = NaN"

fun nneg :: "jsnum \<Rightarrow> jsnum" where
  "nneg (Fin a) = Fin (- a)"
| "nneg NaN = NaN"

fun nsqrt :: "jsnum \<Rightarrow> jsnum" where
  "nsqrt (Fin a) = (if a < 0 then NaN else Fin (sqrt a))"
| "nsqrt NaN = NaN"

fun nless :: "jsnum \<Rightarrow> jsnum \<Rightarrow> bool" where
  "nless (Fin a) (Fin b) = (a < b)"
| "nless _ _ = False"

fun nfinite :: "jsnum \<Rightarrow> bool" where
  "nfinite (Fin a) = True"
| "nfinite NaN = False"

text \<open>Vectors and balls over these numbers; of a ball, the three fields that are numbers.\<close>

record NVector2 =
  nx :: jsnum
  ny :: jsnum

record NBall =
  npos :: NVector2
  nvel :: NVector2
  nradius :: jsnum

text \<open>
  Modelled from the spec: the vector helpers of section 4.1 again, over these numbers.
  \<open>normalize\<close> is not fixed here: the collision logic below takes it as a parameter, and
  \<open>naiveNormalize\<close>, which divides by the magnitude without a guard, is one instance.
\<close>

definition addN :: "NVector2 \<Rightarrow> NVector2 \<Rightarrow> NVector2" where
  "addN a b = \<lparr>nx = nadd (nx a) (nx b), ny = nadd (ny a) (ny b)\<rparr>"

definition subN :: "NVector2 \<Rightarrow> NVector2 \<Rightarrow> NVector2" where
  "subN a b = \<lparr>nx = nsub (nx a) (nx b), ny = nsub (ny a) (ny b)\<rparr>"

definition multN :: "NVector2 \<Rightarrow> jsnum \<Rightarrow> NVector2" where
  "multN v k = \<lparr>nx = nmul (nx v) k, ny = nmul (ny v) k\<rparr>"

definition dotN :: "NVector2 \<Rightarrow> NVector2 \<Rightarrow> jsnum" where
  "dotN a b = nadd (nmul (nx a) (nx b)) (nmul (ny a) (ny b))"

definition magN :: "NVector2 \<Rightarrow> jsnum" where
  "magN v = nsqrt (nadd (nmul (nx v) (nx v)) (nmul (ny v) (ny v)))"

definition naiveNormalize :: "NVector2 \<Rightarrow> NVector2" where
  "naiveNormalize v = \<lparr>nx = ndiv (nx v) (magN v), ny = ndiv (ny v) (magN v)\<rparr>"

text \<open>Lines 167-202 again, over these numbers, for any \<open>normalize\<close>.\<close>

definition resolvePairN :: "(NVector2 \<Rightarrow> NVector2) \<Rightarrow> NBall \<Rightarrow> NBall \<Rightarrow> NBall \<times> NBall" where
  "resolvePairN normalizeN ballA ballB =
     (let distVec = subN (npos ballB) (npos ballA);
          distance = magN distVec;
          totalRadius = nadd (nradius ballA) (nradius ballB)
      in if nless distance totalRadius
         then let overlap = nsub totalRadius distance;
                  correctionNormal =
                    (if distance = Fin 0 then \<lparr>nx = Fin 1, ny = Fin 0\<rparr> else normalizeN distVec);
                  correctionA = multN correctionNormal (ndiv (nneg overlap) (Fin 2));
                  correctionB = multN correctionNormal (ndiv overlap (Fin 2));
                  ballA1 = ballA\<lparr>npos := addN (npos ballA) correctionA\<rparr>;
                  ballB1 = ballB\<lparr>npos := addN (npos ballB) correctionB\<rparr>;
                  collisionNormal = normalizeN distVec;
                  relativeVelocity = subN (nvel ballB1) (nvel ballA1);
                  speedAlongNormal = dotN relativeVelocity collisionNormal
              in if nless speedAlongNormal (Fin 0)
                 then let v1n_scalar = dotN (nvel ballA1) collisionNormal;
                          v2n_scalar = dotN (nvel ballB1) collisionNormal;
                          v1n_vec = multN collisionNormal v1n_scalar;
                          v2n_vec = multN collisionNormal v2n_scalar;
                          v1t_vec = subN (nvel ballA1) v1n_vec;
                          v2t_vec = subN (nvel ballB1) v2n_vec
                      in (ballA1\<lparr>nvel := addN v1t_vec v2n_vec\<rparr>,
                          ballB1\<lparr>nvel := addN v2t_vec v1n_vec\<rparr>)
                 else (ballA1, ballB1)
         else (ballA, ballB))"

text \<open>No component is NaN.\<close>

definition finiteVec :: "NVector2 \<Rightarrow> bool" where
  "finiteVec v \<longleftrightarrow> nfinite (nx v) \<and> nfinite (ny v)"

definition finiteBall :: "NBall \<Rightarrow> bool" where
  "finiteBall b \<longleftrightarrow> finiteVec (npos b) \<and> finiteVec (nvel b) \<and> nfinite (nradius b)"

text \<open>
  Lines 213-218 over these numbers: \<^verbatim>\<open>mag(ball.pos) > shapeRadius + 50\<close> is false when
  the magnitude is NaN. \<open>nle\<close> is the comparison \<^verbatim>\<open><=\<close>, false for NaN as well.
\<close>

fun nle :: "jsnum \<Rightarrow> jsnum \<Rightarrow> bool" where
  "nle (Fin a) (Fin b) = (a \<le> b)"
| "nle _ _ = False"

definition safetyNetN :: "jsnum \<Rightarrow> NBall \<Rightarrow> NBall" where
  "safetyNetN shapeRadius ball =
     (if nless (nadd shapeRadius (Fin 50)) (magN (npos ball))
      then ball\<lparr>npos := \<lparr>nx = Fin 0, ny = Fin 0\<rparr>, nvel := \<lparr>nx = Fin 0, ny = Fin 0\<rparr>\<rparr>
      else ball)"

text \<open>A ball whose position and velocity have become NaN.\<close>

definition lostBall :: NBall where
  "lostBall = \<lparr>npos = \<lparr>nx = NaN, ny = NaN\<rparr>, nvel = \<lparr>nx = NaN, ny = NaN\<rparr>, nradius = Fin 5\<rparr>"

definition stackedA :: NBall where
  "stackedA = \<lparr>npos = \<lparr>nx = Fin 3, ny = Fin 4\<rparr>, nvel = \<lparr>nx = Fin 1, ny = Fin 0\<rparr>, nradius = Fin 5\<rparr>"

definition stackedB :: NBall where
  "stackedB =
     \<lparr>npos = \<lparr>nx = Fin 3, ny = Fin 4\<rparr>, nvel = \<lparr>nx = Fin (- 1), ny = Fin 0\<rparr>, nradius = Fin 5\<rparr>"

section \<open>The integrator as the specification words it\<close>

text \<open>
  Section 4.3 of the specification, one definition per numbered step, with the
  threshold 0.001 and the coefficient 0.003 of the code.
\<close>

definition spec_gravity :: "SimulationConfig \<Rightarrow> GlobalSettings \<Rightarrow> Ball \<Rightarrow> Ball" where
  "spec_gravity cfg gs b =
     b\<lparr>vel := \<lparr>vx = vx (vel b),
               vy = vy (vel b) + gravity cfg * gravityMultiplier gs * timeScale gs\<rparr>\<rparr>"

definition spec_friction :: "SimulationConfig \<Rightarrow> GlobalSettings \<Rightarrow> Ball \<Rightarrow> Ball" where
  "spec_friction cfg gs b = b\<lparr>vel := mult (vel b) (1 - friction cfg * timeScale gs)\<rparr>"

definition spec_drag :: "GlobalSettings \<Rightarrow> Ball \<Rightarrow> Ball" where
  "spec_drag gs b =
     (if mag (vel b) > 0.001
      then b\<lparr>vel := add (vel b) (mult (mult (vel b) (- (0.003 * mag (vel b)))) (timeScale gs))\<rparr>
      else b)"

definition spec_move :: "GlobalSettings \<Rightarrow> Ball \<Rightarrow> Ball" where
  "spec_move gs b = b\<lparr>pos := add (pos b) (mult (vel b) (timeScale gs))\<rparr>"

section \<open>Notions used by the statements\<close>

text \<open>The component of \<open>v\<close> across a unit vector \<open>n\<close>: what is left of \<open>v\<close> without its part along \<open>n\<close>.\<close>

definition tangentialPart :: "Vector2 \<Rightarrow> Vector2 \<Rightarrow> Vector2" where
  "tangentialPart v n = sub v (mult n (dot v n))"

text \<open>Concrete inputs for the examples.\<close>

definition exampleSquare :: "Vector2 list" where
  "exampleSquare =
     [\<lparr>vx = 10, vy = 10\<rparr>, \<lparr>vx = 10, vy = - 10\<rparr>, \<lparr>vx = - 10, vy = - 10\<rparr>, \<lparr>vx = - 10, vy = 10\<rparr>]"

definition exampleBall :: Ball where
  "exampleBall =
     \<lparr>bid = ''sim-0'', pos = \<lparr>vx = 8, vy = 0\<rparr>, vel = \<lparr>vx = 4, vy = 1\<rparr>, radius = 5,
      color = ''#FACC15''\<rparr>"

definition exampleConfig :: SimulationConfig where
  "exampleConfig =
     \<lparr>cid = ''sim'', gravity = 0, friction = 0, restitution = 1 / 2, initialSpeed = 1,
      ballCount = 1, ballSize = 5, rotationSpeed = 0, shapeType = ''polygon'', vertexCount = Some 4\<rparr>"

definition exampleSettings :: GlobalSettings where
  "exampleSettings =
     \<lparr>gravityMultiplier = 1, timeScale = 1, rotationMultiplier = 1, bouncinessMultiplier = 1\<rparr>"

definition strayBall :: Ball where
  "strayBall =
     \<lparr>bid = ''sim-0'', pos = \<lparr>vx = 100, vy = 0\<rparr>, vel = \<lparr>vx = 0, vy = 0\<rparr>, radius = 5,
      color = ''#FACC15''\<rparr>"

definition strayEnv :: Env where
  "strayEnv =
     \<lparr>config = exampleConfig, globalSettings = exampleSettings,
      state = \<lparr>balls = [strayBall], rotation = 0\<rparr>\<rparr>"

definition leftBall :: Ball where
  "leftBall =
     \<lparr>bid = ''sim-0'', pos = \<lparr>vx = 0, vy = 0\<rparr>, vel = \<lparr>vx = 3, vy = 0\<rparr>, radius = 5,
      color = ''#FACC15''\<rparr>"

definition rightBall :: Ball where
  "rightBall =
     \<lparr>bid = ''sim-1'', pos = \<lparr>vx = 8, vy = 0\<rparr>, vel = \<lparr>vx = - 3, vy = 0\<rparr>, radius = 5,
      color = ''#FACC15''\<rparr>"

text \<open>What a step must leave alone in a ball, and in the array of balls.\<close>

definition sameBody :: "Ball \<Rightarrow> Ball \<Rightarrow> bool" where
  "sameBody b b' \<longleftrightarrow> bid b' = bid b \<and> radius b' = radius b \<and> color b' = color b"

definition frameOf :: "Ball list \<Rightarrow> string list \<times> real list \<times> string list" where
  "frameOf bs = (map bid bs, map radius bs, map color bs)"

text \<open>
  For the loops of step 4. The key that line 161 gives to a pair of indices, when the
  ids of the balls are \<open>ids\<close>; and what holds of the loop state all along: the ids do
  not change, the log holds valid indices of balls with different ids, the set
  \<^verbatim>\<open>checkedPairs\<close> holds exactly the keys of the logged pairs, and no key is logged twice.
\<close>

definition keyOf :: "string list \<Rightarrow> nat \<times> nat \<Rightarrow> string" where
  "keyOf ids p = pairKey (ids ! fst p) (ids ! snd p)"

definition pairInv :: "string list \<Rightarrow> PairState \<Rightarrow> bool" where
  "pairInv ids s \<longleftrightarrow>
     map bid (store s) = ids
     \<and> list_all (\<lambda>p. fst p < length ids \<and> snd p < length ids \<and> ids ! fst p \<noteq> ids ! snd p)
         (resolved s)
     \<and> checkedPairs s = keyOf ids ` set (resolved s)
     \<and> distinct (map (keyOf ids) (resolved s))"

text \<open>Every cell of the grid holds indices below \<open>n\<close>.\<close>

definition validGrid :: "nat \<Rightarrow> Grid \<Rightarrow> bool" where
  "validGrid n g \<longleftrightarrow> list_all (\<lambda>e. set (snd e) \<subseteq> {..<n}) g"

text \<open>The collision logic has been run for the pair, in one order or the other.\<close>

definition reached :: "nat \<Rightarrow> nat \<Rightarrow> PairState \<Rightarrow> bool" where
  "reached a b s \<longleftrightarrow> (a, b) \<in> set (resolved s) \<or> (b, a) \<in> set (resolved s)"

text \<open>
  Ids that are pairwise different and whose pairs have keys of their own: the key of
  line 161 tells which two ids it was made from. Ids without the separator of line 161
  are such ids.
\<close>

definition distinctKeys :: "string list \<Rightarrow> bool" where
  "distinctKeys ids \<longleftrightarrow>
     distinct ids
     \<and> (\<forall>x \<in> set ids. \<forall>y \<in> set ids. \<forall>u \<in> set ids. \<forall>v \<in> set ids.
           pairKey x y = pairKey u v \<longrightarrow> (x = u \<and> y = v) \<or> (x = v \<and> y = u))"

definition plainIds :: "string list \<Rightarrow> bool" where
  "plainIds ids \<longleftrightarrow> distinct ids \<and> list_all (\<lambda>x. CHR ''|'' \<notin> set x) ids"

text \<open>
  A step without collisions, for the ball \<open>i\<close>: after the integrator the ball
  penetrates no edge of the boundary, no two balls overlap when step 4 starts, and the
  ball is not beyond the bound of the safety net.
\<close>

definition wallsClear :: "Vector2 list \<Rightarrow> Ball \<Rightarrow> bool" where
  "wallsClear vs b \<longleftrightarrow>
     list_all (\<lambda>k. \<not> dot (sub (pos b) (vs ! k))
                       (edgeNormal (vs ! k) (vs ! ((k + 1) mod length vs))) < radius b)
       [0..<length vs]"

definition apart :: "Ball list \<Rightarrow> bool" where
  "apart bs \<longleftrightarrow>
     list_all (\<lambda>a. list_all (\<lambda>b. a = b
         \<or> \<not> mag (sub (pos (bs ! b)) (pos (bs ! a))) < radius (bs ! a) + radius (bs ! b))
       [0..<length bs]) [0..<length bs]"

definition quietStep :: "real \<Rightarrow> real \<Rightarrow> Env \<Rightarrow> nat \<Rightarrow> bool" where
  "quietStep width height env i \<longleftrightarrow>
     i < length (balls (state env))
     \<and> wallsClear (localVerticesOf width height env)
         (integrate (config env) (globalSettings env) (balls (state env) ! i))
     \<and> apart (wallPass width height env)
     \<and> \<not> mag (pos (integrate (config env) (globalSettings env) (balls (state env) ! i)))
           > shapeRadiusOf width height + 50"

text \<open>What the quadratic drag of lines 79-86 does to a velocity in one step.\<close>

definition dragged :: "real \<Rightarrow> Vector2 \<Rightarrow> Vector2" where
  "dragged ts v = (if mag v > 0.001 then mult v (1 - 0.003 * mag v * ts) else v)"

text \<open>
  A single ball on the horizontal axis, in the square of a 1000 x 1000 canvas, and the
  drag on its speed for the time scale 1.
\<close>

definition loneBall :: "real \<Rightarrow> real \<Rightarrow> Ball" where
  "loneBall x v =
     \<lparr>bid = ''sim-0'', pos = \<lparr>vx = x, vy = 0\<rparr>, vel = \<lparr>vx = v, vy = 0\<rparr>, radius = 5,
      color = ''#FACC15''\<rparr>"

definition loneEnv :: "real \<Rightarrow> real \<Rightarrow> Env" where
  "loneEnv x v =
     \<lparr>config = exampleConfig, globalSettings = exampleSettings,
      state = \<lparr>balls = [loneBall x v], rotation = 0\<rparr>\<rparr>"

definition loneDrag :: "real \<Rightarrow> real" where
  "loneDrag v = (if \<bar>v\<bar> > 0.001 then v * (1 - 0.003 * \<bar>v\<bar>) else v)"

section \<open>Vector facts\<close>

lemma mag_axis: "mag \<lparr>vx = a, vy = 0\<rparr> = \<bar>a\<bar>"
  by (simp add: mag_def)

lemma mag_axis_y: "mag \<lparr>vx = 0, vy = a\<rparr> = \<bar>a\<bar>"
  by (simp add: mag_def)

lemma mag_zero_iff: "mag v = 0 \<longleftrightarrow> vx v = 0 \<and> vy v = 0"
  by (simp add: mag_def sum_squares_eq_zero_iff)

lemma mag_nonneg: "0 \<le> mag v"
  by (simp add: mag_def)

lemma mag_normalize: "mag v \<noteq> 0 \<Longrightarrow> mag (normalize v) = 1"
proof -
  assume nz: "mag v \<noteq> 0"
  let ?m = "mag v"
  have sq: "?m * ?m = vx v * vx v + vy v * vy v"
    by (simp add: mag_def)
  have "vx v / ?m * (vx v / ?m) + vy v / ?m * (vy v / ?m)
      = (vx v * vx v + vy v * vy v) / (?m * ?m)"
    by (simp add: add_divide_distrib)
  also have "\<dots> = (?m * ?m) / (?m * ?m)" by (simp only: sq)
  also have "\<dots> = 1" using nz by simp
  finally have "sqrt (vx v / ?m * (vx v / ?m) + vy v / ?m * (vy v / ?m)) = 1"
    by simp
  then show ?thesis using nz
    unfolding normalize_def Let_def by (simp add: mag_def)
qed

lemma mag_neg: "mag \<lparr>vx = - vx n, vy = - vy n\<rparr> = mag n"
  by (simp add: mag_def)

lemma dot_self: "dot n n = mag n * mag n"
  by (simp add: dot_def mag_def)

lemma mag_zero: "mag \<lparr>vx = 0, vy = 0\<rparr> = 0"
  by (simp add: mag_def)

lemma normalize_axis:
  "d \<noteq> 0 \<Longrightarrow> normalize \<lparr>vx = d, vy = 0\<rparr> = \<lparr>vx = sgn d, vy = 0\<rparr>"
  by (simp add: normalize_def mag_axis Let_def sgn_real_def)

lemma abs_vx_le_mag: "\<bar>vx v\<bar> \<le> mag v"
  unfolding mag_def by (rule real_le_rsqrt) (simp add: power2_eq_square)

lemma abs_vy_le_mag: "\<bar>vy v\<bar> \<le> mag v"
  unfolding mag_def by (rule real_le_rsqrt) (simp add: power2_eq_square)

section \<open>Facts about folds and updates\<close>

lemma fold_keeps:
  assumes "\<And>x s. P s \<Longrightarrow> P (f x s)" and "P s"
  shows "P (fold f xs s)"
  using assms by (induction xs arbitrary: s) auto

lemma fold_keeps_on:
  assumes "\<And>x s. x \<in> set xs \<Longrightarrow> P s \<Longrightarrow> P (f x s)" and "P s"
  shows "P (fold f xs s)"
  using assms by (induction xs arbitrary: s) auto

lemma fold_reaches:
  assumes "x \<in> set xs"
    and inv: "\<And>y s. y \<in> set xs \<Longrightarrow> I s \<Longrightarrow> I (f y s)"
    and est: "\<And>s. I s \<Longrightarrow> Q (f x s)"
    and keep: "\<And>y s. y \<in> set xs \<Longrightarrow> I s \<Longrightarrow> Q s \<Longrightarrow> Q (f y s)"
    and "I s"
  shows "Q (fold f xs s)"
  using assms
proof (induction xs arbitrary: s)
  case Nil
  then show ?case by simp
next
  case (Cons y ys)
  have Iy: "I (f y s)" using Cons.prems by simp
  show ?case
  proof (cases "y = x")
    case True
    have "Q (f y s)" using True Cons.prems by simp
    then have "I (f y s) \<and> Q (f y s)" using Iy by simp
    then have "I (fold f ys (f y s)) \<and> Q (fold f ys (f y s))"
      by (rule fold_keeps_on [where P = "\<lambda>s. I s \<and> Q s", rotated])
        (use Cons.prems in auto)
    then show ?thesis by simp
  next
    case False
    then have "x \<in> set ys" using Cons.prems(1) by simp
    then have "Q (fold f ys (f y s))"
      using Cons.prems Iy by (intro Cons.IH) auto
    then show ?thesis by simp
  qed
qed

lemma distinct_const_length:
  assumes "distinct (map f xs)" and "\<And>x. x \<in> set xs \<Longrightarrow> f x = k"
  shows "length xs \<le> 1"
proof (cases xs)
  case Nil
  then show ?thesis by simp
next
  case (Cons x ys)
  show ?thesis
  proof (cases ys)
    case Nil
    then show ?thesis using Cons by simp
  next
    case (Cons y zs)
    then have "f x = f y" using assms(2) \<open>xs = x # ys\<close> by simp
    then show ?thesis using assms(1) \<open>xs = x # ys\<close> Cons by simp
  qed
qed

lemma fold_id: "(\<And>x. x \<in> set xs \<Longrightarrow> f x s = s) \<Longrightarrow> fold f xs s = s"
  by (induction xs) auto

lemma map_update_same: "f y = f (xs ! i) \<Longrightarrow> map f (xs[i := y]) = map f xs"
proof (cases "i < length xs")
  case True
  assume "f y = f (xs ! i)"
  then have "map f (xs[i := y]) = (map f xs)[i := (map f xs) ! i]"
    using True by (simp add: map_update)
  then show ?thesis by simp
next
  case False
  then show ?thesis by (simp add: list_update_beyond)
qed

section \<open>Facts about the boundary\<close>

text \<open>The normal of an edge with two different ends is a unit vector.\<close>

lemma edgeNormal_unit: "p1 \<noteq> p2 \<Longrightarrow> mag (edgeNormal p1 p2) = 1"
proof -
  assume "p1 \<noteq> p2"
  then have "vx p2 - vx p1 \<noteq> 0 \<or> vy p2 - vy p1 \<noteq> 0"
    by (auto intro: Vector2.equality)
  then have "mag \<lparr>vx = - vy (sub p2 p1), vy = vx (sub p2 p1)\<rparr> \<noteq> 0"
    by (auto simp: mag_zero_iff sub_def)
  then have "mag (normalize \<lparr>vx = - vy (sub p2 p1), vy = vx (sub p2 p1)\<rparr>) = 1"
    by (rule mag_normalize)
  then show ?thesis
    by (simp add: edgeNormal_def Let_def mag_neg)
qed

lemma exampleSquare_normal:
  "edgeNormal \<lparr>vx = 10, vy = 10\<rparr> \<lparr>vx = 10, vy = - 10\<rparr> = \<lparr>vx = - 1, vy = 0\<rparr>"
  by (simp add: edgeNormal_def normalize_def sub_def mag_axis dot_def mult_def Let_def)

section \<open>Properties of the integrator\<close>

text \<open>
  C9: the integrator applies gravity to \<open>velocity.y\<close> first, then the friction
  multiply, then quadratic drag, and only then moves the position, with the velocity that
  already includes this tick's forces.
\<close>

theorem integrate_fixed_order:
  "integrate cfg gs b = spec_move gs (spec_drag gs (spec_friction cfg gs (spec_gravity cfg gs b)))
   \<and> pos (integrate cfg gs b) = add (pos b) (mult (vel (integrate cfg gs b)) (timeScale gs))"
  by (simp add: integrate_def spec_move_def spec_drag_def spec_friction_def spec_gravity_def
      Let_def mult_def add_def)


text \<open>
  The order shows in the numbers: from rest, with gravity 1, friction \<open>1/2\<close> and time
  scale 1, the velocity is \<open>(0 + 1) * 1/2 = 1/2\<close> before the drag and
  \<open>1/2 * (1 - 0.003 * 1/2)\<close> after it, and the position moves by that last velocity.
\<close>

lemma integrate_example:
  "integrate (exampleConfig\<lparr>gravity := 1, friction := 1 / 2\<rparr>) exampleSettings
     (exampleBall\<lparr>pos := \<lparr>vx = 0, vy = 0\<rparr>, vel := \<lparr>vx = 0, vy = 0\<rparr>\<rparr>)
   = exampleBall\<lparr>pos := \<lparr>vx = 0, vy = 1997 / 4000\<rparr>, vel := \<lparr>vx = 0, vy = 1997 / 4000\<rparr>\<rparr>"
  by (simp add: integrate_def exampleConfig_def exampleSettings_def exampleBall_def Let_def
      mult_def add_def mag_axis_y)

section \<open>Boundary collisions\<close>

text \<open>
  C4: for the edge \<open>i\<close> of the boundary, with \<open>n\<close> its inward normal and \<open>d\<close> the signed
  distance of the ball's centre along \<open>n\<close>: when \<open>d < radius\<close> the position moves by
  exactly \<open>radius - d\<close> along \<open>n\<close>, and the velocity changes only when
  \<open>dot(velocity, n) < 0\<close>, to the reflection about \<open>n\<close>, scaled by
  \<open>restitution * bouncinessMultiplier\<close>, plus \<open>n * 0.1\<close>; when \<open>d \<ge> radius\<close> the ball is
  unchanged. The edges are applied one after the other to the integrated ball.
\<close>

theorem boundary_edge_response:
  "let p1 = localVertices ! i;
       p2 = localVertices ! ((i + 1) mod length localVertices);
       n = edgeNormal p1 p2;
       d = dot (sub (pos ball) p1) n;
       rest = restitution cfg * bouncinessMultiplier gs;
       ball' = resolveEdge rest localVertices i ball
   in (d < radius ball \<longrightarrow>
         pos ball' = add (pos ball) (mult n (radius ball - d))
         \<and> (dot (vel ball) n < 0 \<longrightarrow>
              vel ball' = add (mult (sub (vel ball) (mult n (2 * dot (vel ball) n))) rest)
                            (mult n 0.1))
         \<and> (\<not> dot (vel ball) n < 0 \<longrightarrow> vel ball' = vel ball))
      \<and> (\<not> d < radius ball \<longrightarrow> ball' = ball)
      \<and> updateBall cfg gs localVertices ball
          = fold (resolveEdge rest localVertices) [0..<length localVertices]
              (integrate cfg gs ball)"
  by (simp add: resolveEdge_def collideEdge_def updateBall_def Let_def mult_def sub_def add_def)

text \<open>
  The ball at \<open>(8, 0)\<close> with radius 5 and velocity \<open>(4, 1)\<close> against the edge \<open>x = 10\<close> of the
  square, restitution \<open>1/2\<close>: the distance is 2, the ball moves to \<open>(5, 0)\<close> and leaves with
  \<open>(-2.1, 0.5)\<close>.
\<close>

theorem boundary_edge_response_witness:
  "dot (sub (pos exampleBall) (exampleSquare ! 0))
       (edgeNormal (exampleSquare ! 0) (exampleSquare ! 1)) = 2
   \<and> dot (vel exampleBall) (edgeNormal (exampleSquare ! 0) (exampleSquare ! 1)) = - 4
   \<and> pos (resolveEdge (restitution exampleConfig * bouncinessMultiplier exampleSettings)
            exampleSquare 0 exampleBall) = \<lparr>vx = 5, vy = 0\<rparr>
   \<and> vel (resolveEdge (restitution exampleConfig * bouncinessMultiplier exampleSettings)
            exampleSquare 0 exampleBall) = \<lparr>vx = - (21 / 10), vy = 1 / 2\<rparr>"
  using boundary_edge_response [of exampleSquare 0 exampleBall exampleConfig exampleSettings]
  unfolding Let_def
  by (simp add: exampleSquare_def exampleSquare_normal)
    (simp add: exampleBall_def exampleConfig_def exampleSettings_def add_def mult_def sub_def
      dot_def)

text \<open>
  After the push the centre is at the distance \<open>radius\<close> from the edge, when the edge
  has two different ends.
\<close>

lemma collideEdge_rests_on_edge:
  assumes "p1 \<noteq> p2"
    and "dot (sub (pos ball) p1) (edgeNormal p1 p2) < radius ball"
  shows "dot (sub (pos (collideEdge rest p1 p2 ball)) p1) (edgeNormal p1 p2) = radius ball"
proof -
  let ?n = "edgeNormal p1 p2"
  let ?d = "dot (sub (pos ball) p1) ?n"
  have u: "vx ?n * vx ?n + vy ?n * vy ?n = 1"
    using edgeNormal_unit [OF assms(1)] dot_self [of ?n] by (simp add: dot_def)
  have p: "pos (collideEdge rest p1 p2 ball) = add (pos ball) (mult ?n (radius ball - ?d))"
    using assms(2) by (simp add: collideEdge_def Let_def)
  have "dot (sub (pos (collideEdge rest p1 p2 ball)) p1) ?n
      = ?d + (radius ball - ?d) * (vx ?n * vx ?n + vy ?n * vy ?n)"
    unfolding p by (simp add: dot_def sub_def add_def mult_def algebra_simps)
  then show ?thesis unfolding u by simp
qed

text \<open>
  C2, as the code has it: in a boundary collision with the body moving into the wall
  (an edge with two different ends, so that \<open>n\<close> is a unit vector), the whole reflected
  velocity is scaled by \<open>restitution * bouncinessMultiplier\<close>. The tangential component
  is scaled by that factor, it is not retained; the normal component becomes the factor
  times the incoming normal speed, plus the nudge 0.1.
\<close>

theorem boundary_tangential_scaled:
  assumes "p1 \<noteq> p2"
    and "dot (sub (pos ball) p1) (edgeNormal p1 p2) < radius ball"
    and "dot (vel ball) (edgeNormal p1 p2) < 0"
  shows "tangentialPart (vel (collideEdge rest p1 p2 ball)) (edgeNormal p1 p2)
           = mult (tangentialPart (vel ball) (edgeNormal p1 p2)) rest
       \<and> dot (vel (collideEdge rest p1 p2 ball)) (edgeNormal p1 p2)
           = rest * (- dot (vel ball) (edgeNormal p1 p2)) + 0.1"
proof -
  let ?n = "edgeNormal p1 p2"
  have u: "vx ?n * vx ?n + vy ?n * vy ?n = 1"
    using edgeNormal_unit [OF assms(1)] dot_self [of ?n] by (simp add: dot_def)
  have v: "vel (collideEdge rest p1 p2 ball)
      = add (mult (sub (vel ball) (mult ?n (2 * dot (vel ball) ?n))) rest) (mult ?n 0.1)"
    using assms(2,3) by (simp add: collideEdge_def Let_def mult_def sub_def add_def)
  have d: "dot (vel (collideEdge rest p1 p2 ball)) ?n = rest * (- dot (vel ball) ?n) + 0.1"
  proof -
    have "dot (vel (collideEdge rest p1 p2 ball)) ?n
        = rest * dot (vel ball) ?n - 2 * rest * dot (vel ball) ?n * (vx ?n * vx ?n + vy ?n * vy ?n)
          + 0.1 * (vx ?n * vx ?n + vy ?n * vy ?n)"
      unfolding v by (simp add: dot_def mult_def sub_def add_def algebra_simps)
    then show ?thesis unfolding u by simp
  qed
  have t: "tangentialPart (vel (collideEdge rest p1 p2 ball)) ?n
      = mult (tangentialPart (vel ball) ?n) rest"
    unfolding tangentialPart_def d
    unfolding v by (simp add: dot_def mult_def sub_def add_def algebra_simps)
  show ?thesis using d t by simp
qed

theorem boundary_tangential_scaled_witness:
  "tangentialPart (vel (collideEdge (1 / 2) (exampleSquare ! 0) (exampleSquare ! 1) exampleBall))
       (edgeNormal (exampleSquare ! 0) (exampleSquare ! 1))
     = \<lparr>vx = 0, vy = 1 / 2\<rparr>
   \<and> dot (vel (collideEdge (1 / 2) (exampleSquare ! 0) (exampleSquare ! 1) exampleBall))
       (edgeNormal (exampleSquare ! 0) (exampleSquare ! 1)) = 21 / 10"
proof -
  have e: "exampleSquare ! 0 \<noteq> exampleSquare ! 1"
    by (simp add: exampleSquare_def)
  have d: "dot (sub (pos exampleBall) (exampleSquare ! 0))
      (edgeNormal (exampleSquare ! 0) (exampleSquare ! 1)) < radius exampleBall"
    by (simp add: exampleSquare_def exampleSquare_normal)
      (simp add: exampleBall_def dot_def sub_def)
  have v: "dot (vel exampleBall) (edgeNormal (exampleSquare ! 0) (exampleSquare ! 1)) < 0"
    by (simp add: exampleSquare_def exampleSquare_normal) (simp add: exampleBall_def dot_def)
  show ?thesis
    using boundary_tangential_scaled [OF e d v, of "1 / 2"]
    by (simp add: exampleSquare_def exampleSquare_normal)
      (simp add: tangentialPart_def exampleBall_def dot_def mult_def sub_def)
qed

text \<open>
  The claim C2 as the specification words it (the tangential component of the velocity is
  retained unchanged) fails on the same collision: the tangential component \<open>(0, 1)\<close>
  leaves as \<open>(0, 1/2)\<close>.
\<close>

theorem boundary_tangential_retained_counterexample:
  "dot (sub (pos exampleBall) (exampleSquare ! 0))
       (edgeNormal (exampleSquare ! 0) (exampleSquare ! 1)) < radius exampleBall
   \<and> dot (vel exampleBall) (edgeNormal (exampleSquare ! 0) (exampleSquare ! 1)) < 0
   \<and> tangentialPart (vel exampleBall) (edgeNormal (exampleSquare ! 0) (exampleSquare ! 1))
       = \<lparr>vx = 0, vy = 1\<rparr>
   \<and> tangentialPart
         (vel (collideEdge (1 / 2) (exampleSquare ! 0) (exampleSquare ! 1) exampleBall))
         (edgeNormal (exampleSquare ! 0) (exampleSquare ! 1))
       \<noteq> tangentialPart (vel exampleBall) (edgeNormal (exampleSquare ! 0) (exampleSquare ! 1))"
  by (simp add: exampleSquare_def exampleSquare_normal collideEdge_def Let_def)
    (simp add: tangentialPart_def exampleBall_def dot_def mult_def sub_def add_def)

section \<open>The frame of a step\<close>

lemma frame_integrate:
  "bid (integrate cfg gs b) = bid b \<and> radius (integrate cfg gs b) = radius b
   \<and> color (integrate cfg gs b) = color b"
  by (simp add: integrate_def Let_def)

lemma frame_collideEdge:
  "bid (collideEdge r p1 p2 b) = bid b \<and> radius (collideEdge r p1 p2 b) = radius b
   \<and> color (collideEdge r p1 p2 b) = color b"
  by (simp add: collideEdge_def Let_def)

lemma frame_updateBall: "sameBody b (updateBall cfg gs vs b)"
  unfolding updateBall_def Let_def
  by (rule fold_keeps)
    (simp_all add: sameBody_def resolveEdge_def frame_collideEdge frame_integrate)

lemma frame_resolvePair:
  "sameBody a (fst (resolvePair a b)) \<and> sameBody b (snd (resolvePair a b))"
  by (simp add: resolvePair_def Let_def sameBody_def)

lemma frame_collide: "frameOf (collide a b bs) = frameOf bs"
proof -
  obtain A B where r: "resolvePair (bs ! a) (bs ! b) = (A, B)"
    by (cases "resolvePair (bs ! a) (bs ! b)")
  have A: "sameBody (bs ! a) A" and B: "sameBody (bs ! b) B"
    using frame_resolvePair [of "bs ! a" "bs ! b"] r by simp_all
  have m: "map f (bs[a := A, b := B]) = map f bs"
    if "f A = f (bs ! a)" and "f B = f (bs ! b)" for f :: "Ball \<Rightarrow> 'x"
  proof (cases "a = b")
    case True
    then show ?thesis using that by (simp add: map_update_same)
  next
    case False
    have "map f (bs[a := A, b := B]) = map f (bs[a := A])"
      using False that by (simp add: map_update_same)
    then show ?thesis using that by (simp add: map_update_same)
  qed
  show ?thesis
    using A B by (simp add: collide_def r frameOf_def sameBody_def m)
qed

lemma frame_checkPair: "frameOf (store (checkPair a b s)) = frameOf (store s)"
  by (simp add: checkPair_def Let_def frame_collide)

lemma frame_checkCells: "frameOf (store (checkCells as bs s)) = frameOf (store s)"
  unfolding checkCells_def
  by (rule fold_keeps [where P = "\<lambda>t. frameOf (store t) = frameOf (store s)"],
      rule fold_keeps [where P = "\<lambda>t. frameOf (store t) = frameOf (store s)"])
    (simp_all add: frame_checkPair)

lemma frame_checkNeighbor:
  "frameOf (store (checkNeighbor g k c dx dy s)) = frameOf (store s)"
  by (simp add: checkNeighbor_def frame_checkCells split: option.split)

lemma frame_checkCell: "frameOf (store (checkCell g e s)) = frameOf (store s)"
  by (simp add: checkCell_def frame_checkNeighbor)

lemma frame_ballCollisions: "frameOf (store (ballCollisions cfg R bs)) = frameOf bs"
proof -
  have "frameOf (store (fold (checkCell g) xs s)) = frameOf (store s)" for g xs s
    by (rule fold_keeps [where P = "\<lambda>t. frameOf (store t) = frameOf (store s)"])
      (simp_all add: frame_checkCell)
  then show ?thesis by (simp add: ballCollisions_def Let_def)
qed

lemma frame_safetyNet: "sameBody b (safetyNet R b)"
  by (simp add: safetyNet_def sameBody_def)

lemma frame_map: "(\<And>b. sameBody b (f b)) \<Longrightarrow> frameOf (map f bs) = frameOf bs"
  by (simp add: frameOf_def sameBody_def)

text \<open>
  C10: a step changes only positions and velocities (and the rotation angle). The ids,
  radii and colours of the balls are the same lists after the step, in the same order,
  and the configuration and the global settings are the ones it was given.
\<close>

theorem step_frame:
  "config (updatePhysics width height env) = config env
   \<and> globalSettings (updatePhysics width height env) = globalSettings env
   \<and> map bid (balls (state (updatePhysics width height env))) = map bid (balls (state env))
   \<and> map radius (balls (state (updatePhysics width height env)))
       = map radius (balls (state env))
   \<and> map color (balls (state (updatePhysics width height env)))
       = map color (balls (state env))"
proof -
  have "frameOf (balls (state (updatePhysics width height env))) = frameOf (balls (state env))"
    by (simp add: updatePhysics_def pairPass_def wallPass_def frame_map frame_safetyNet
        frame_ballCollisions frame_updateBall)
  then show ?thesis by (simp add: frameOf_def updatePhysics_def)
qed

section \<open>The escape safety net\<close>

text \<open>
  Over the reals, that is as long as every number of the step is finite: on a canvas
  (width and height are not negative), after a step every ball is within
  \<open>shapeRadius + 50\<close> of the centre: a ball that the collisions left beyond that bound is
  back at \<open>(0, 0)\<close> with velocity \<open>(0, 0)\<close>, and every other ball is as the collisions
  left it.
\<close>

lemma safetyNet_pass_reals:
  assumes "0 \<le> width" and "0 \<le> height"
  shows "length (balls (state (updatePhysics width height env)))
           = length (store (pairPass width height env))
       \<and> (\<forall>i < length (store (pairPass width height env)).
            let before = store (pairPass width height env) ! i;
                after = balls (state (updatePhysics width height env)) ! i;
                bound = shapeRadiusOf width height + 50
            in mag (pos after) \<le> bound
               \<and> (mag (pos before) > bound \<longrightarrow>
                    after = before\<lparr>pos := \<lparr>vx = 0, vy = 0\<rparr>, vel := \<lparr>vx = 0, vy = 0\<rparr>\<rparr>)
               \<and> (mag (pos before) \<le> bound \<longrightarrow> after = before))"
proof -
  have "0 \<le> shapeRadiusOf width height + 50"
    using assms by (simp add: shapeRadiusOf_def)
  then show ?thesis
    by (simp add: updatePhysics_def safetyNet_def Let_def mag_zero)
qed

text \<open>
  On a canvas of size 0 all vertices are the centre and no edge moves a ball; a ball at
  rest at \<open>(100, 0)\<close> is beyond the bound 50 and is put back.
\<close>

lemma generatePolygon_zero:
  "generatePolygon n 0 \<lparr>vx = 0, vy = 0\<rparr> \<theta> = replicate n \<lparr>vx = 0, vy = 0\<rparr>"
  by (simp add: generatePolygon_def map_replicate_const)

lemma collideEdge_point:
  "collideEdge rest \<lparr>vx = 0, vy = 0\<rparr> \<lparr>vx = 0, vy = 0\<rparr> ball = ball"
  by (simp add: collideEdge_def edgeNormal_def normalize_def mag_zero sub_def dot_def mult_def
      add_def Let_def)

lemma updateBall_point:
  "updateBall cfg gs (replicate n \<lparr>vx = 0, vy = 0\<rparr>) ball = integrate cfg gs ball"
  unfolding updateBall_def Let_def
  by (rule fold_id) (simp add: resolveEdge_def collideEdge_point)

lemma strayEnv_before: "store (pairPass 0 0 strayEnv) = [strayBall]"
  by (simp add: pairPass_def ballCollisions_def wallPass_def localVerticesOf_def orDefault_def
      shapeRadiusOf_def strayEnv_def exampleConfig_def generatePolygon_zero updateBall_point
      Let_def)
    (simp add: integrate_def strayBall_def exampleSettings_def mult_def add_def mag_zero Let_def)

lemma safetyNet_pass_example:
  "store (pairPass 0 0 strayEnv) = [strayBall]
   \<and> mag (pos strayBall) = 100
   \<and> shapeRadiusOf 0 0 + 50 = 50
   \<and> balls (state (updatePhysics 0 0 strayEnv)) ! 0
       = strayBall\<lparr>pos := \<lparr>vx = 0, vy = 0\<rparr>, vel := \<lparr>vx = 0, vy = 0\<rparr>\<rparr>"
proof -
  have m: "mag (pos strayBall) = 100"
    by (simp add: strayBall_def mag_axis)
  have b: "shapeRadiusOf 0 0 + 50 = 50"
    by (simp add: shapeRadiusOf_def)
  show ?thesis
    using safetyNet_pass_reals [of 0 0 strayEnv]
    by (simp add: strayEnv_before m b Let_def)
qed

text \<open>Over numbers with NaN: a finite position ends within the bound, a NaN position stays.\<close>

lemma nfinite_iff: "nfinite a \<longleftrightarrow> (\<exists>r. a = Fin r)"
  by (cases a) simp_all

lemma magN_finite:
  "magN \<lparr>nx = Fin a, ny = Fin b\<rparr> = Fin (sqrt (a * a + b * b))"
  by (simp add: magN_def not_less)

lemma magN_nan: "\<not> finiteVec v \<Longrightarrow> magN v = NaN"
  by (cases "nx v"; cases "ny v") (simp_all add: magN_def finiteVec_def)

lemma safetyNetN_finite:
  assumes "finiteVec (npos ball)" and "0 \<le> r + 50"
  shows "nle (magN (npos (safetyNetN (Fin r) ball))) (nadd (Fin r) (Fin 50))"
proof -
  obtain a b where p: "npos ball = \<lparr>nx = Fin a, ny = Fin b\<rparr>"
    using assms(1) by (cases "npos ball") (auto simp: finiteVec_def nfinite_iff)
  have z: "magN \<lparr>nx = Fin 0, ny = Fin 0\<rparr> = Fin 0" by (simp add: magN_def)
  show ?thesis
    using assms(2) by (simp add: safetyNetN_def p magN_finite z)
qed

lemma safetyNetN_nan:
  assumes "\<not> finiteVec (npos ball)"
  shows "safetyNetN shapeRadius ball = ball"
    and "\<not> nle (magN (npos (safetyNetN shapeRadius ball))) bound"
proof -
  have m: "magN (npos ball) = NaN" using assms by (rule magN_nan)
  show s: "safetyNetN shapeRadius ball = ball"
    by (cases "nadd shapeRadius (Fin 50)") (simp_all add: safetyNetN_def m)
  show "\<not> nle (magN (npos (safetyNetN shapeRadius ball))) bound"
    unfolding s m by (cases bound) simp_all
qed

text \<open>
  C8 asks that after every step every ball is within \<open>shapeRadius + 50\<close> of the centre,
  a ball beyond the bound being reset. The code misses the ball whose position is NaN:
  the comparison of line 214 is false for it, the ball is returned as it is, and its
  distance from the centre is not at most the bound (here \<open>shapeRadius = 450\<close>, the
  canvas of 1000 x 1000).
\<close>

theorem safety_net_keeps_nan_ball:
  "magN (npos lostBall) = NaN
   \<and> safetyNetN (Fin 450) lostBall = lostBall
   \<and> \<not> nle (magN (npos (safetyNetN (Fin 450) lostBall))) (nadd (Fin 450) (Fin 50))"
  by (simp add: safetyNetN_def lostBall_def magN_def)

section \<open>One pair collision\<close>

lemma resolvePair_exchange:
  assumes "mag (sub (pos ballB) (pos ballA)) < radius ballA + radius ballB"
    and "n = normalize (sub (pos ballB) (pos ballA))"
    and "dot (sub (vel ballB) (vel ballA)) n < 0"
  shows "vel (fst (resolvePair ballA ballB))
           = add (sub (vel ballA) (mult n (dot (vel ballA) n))) (mult n (dot (vel ballB) n))"
    and "vel (snd (resolvePair ballA ballB))
           = add (sub (vel ballB) (mult n (dot (vel ballB) n))) (mult n (dot (vel ballA) n))"
  using assms by (simp_all add: resolvePair_def Let_def)

lemma resolvePair_head_on:
  assumes y: "vy (pos ballA) = vy (pos ballB)"
    and vA: "vel ballA = \<lparr>vx = v, vy = 0\<rparr>"
    and vB: "vel ballB = \<lparr>vx = - v, vy = 0\<rparr>"
    and appr: "0 < (vx (pos ballB) - vx (pos ballA)) * v"
    and hit: "mag (sub (pos ballB) (pos ballA)) < radius ballA + radius ballB"
  shows "vel (fst (resolvePair ballA ballB)) = \<lparr>vx = - v, vy = 0\<rparr>"
    and "vel (snd (resolvePair ballA ballB)) = \<lparr>vx = v, vy = 0\<rparr>"
proof -
  let ?d = "vx (pos ballB) - vx (pos ballA)"
  have d0: "?d \<noteq> 0" using appr by auto
  have dv: "sub (pos ballB) (pos ballA) = \<lparr>vx = ?d, vy = 0\<rparr>"
    using y by (simp add: sub_def)
  have n: "normalize (sub (pos ballB) (pos ballA)) = \<lparr>vx = sgn ?d, vy = 0\<rparr>"
    unfolding dv using d0 by (rule normalize_axis)
  have s: "v * sgn ?d > 0"
    using appr by (auto simp: sgn_real_def zero_less_mult_iff)
  have ss: "sgn ?d * sgn ?d = 1"
    using d0 by (simp add: sgn_real_def)
  have ss': "sgn ?d * (v * sgn ?d) = v"
    using ss by (simp add: mult.left_commute)
  have ss'': "sgn ?d * (sgn ?d * v) = v"
    using ss by (simp add: mult.assoc [symmetric])
  have lt: "(- v - v) * sgn ?d < 0"
    using s by (simp add: algebra_simps)
  have lt': "dot (sub (vel ballB) (vel ballA)) \<lparr>vx = sgn ?d, vy = 0\<rparr> < 0"
    using lt by (simp add: dot_def sub_def vA vB)
  show "vel (fst (resolvePair ballA ballB)) = \<lparr>vx = - v, vy = 0\<rparr>"
    unfolding resolvePair_exchange(1) [OF hit n [symmetric] lt']
    by (simp add: vA vB dot_def sub_def mult_def add_def ss' ss'')
  show "vel (snd (resolvePair ballA ballB)) = \<lparr>vx = v, vy = 0\<rparr>"
    unfolding resolvePair_exchange(2) [OF hit n [symmetric] lt']
    by (simp add: vA vB dot_def sub_def mult_def add_def ss' ss'')
qed

text \<open>
  C5: two balls of equal radius on a horizontal line, with velocities \<open>(v, 0)\<close> and
  \<open>(-v, 0)\<close>, approaching and overlapping. One run of the collision logic exchanges
  the velocities exactly; the sum of the velocities (momentum, the masses being equal)
  and the sum of the squared speeds (kinetic energy) are kept. The collision logic has
  no settings among its inputs: step 4 gives the same result whatever the configured
  restitution, and within a step it is run on the configuration, the shape radius and
  the balls that step 3 left, so that no restitution factor and no
  \<open>bouncinessMultiplier\<close> is applied between balls.
\<close>

theorem head_on_pair_exchange:
  assumes "radius ballA = radius ballB"
    and "vy (pos ballA) = vy (pos ballB)"
    and "vel ballA = \<lparr>vx = v, vy = 0\<rparr>"
    and "vel ballB = \<lparr>vx = - v, vy = 0\<rparr>"
    and "0 < (vx (pos ballB) - vx (pos ballA)) * v"
    and "mag (sub (pos ballB) (pos ballA)) < radius ballA + radius ballB"
  shows "vel (fst (resolvePair ballA ballB)) = \<lparr>vx = - v, vy = 0\<rparr>
       \<and> vel (snd (resolvePair ballA ballB)) = \<lparr>vx = v, vy = 0\<rparr>
       \<and> add (vel (fst (resolvePair ballA ballB))) (vel (snd (resolvePair ballA ballB)))
           = add (vel ballA) (vel ballB)
       \<and> dot (vel (fst (resolvePair ballA ballB))) (vel (fst (resolvePair ballA ballB)))
           + dot (vel (snd (resolvePair ballA ballB))) (vel (snd (resolvePair ballA ballB)))
           = dot (vel ballA) (vel ballA) + dot (vel ballB) (vel ballB)
       \<and> ballCollisions (cfg\<lparr>restitution := e\<rparr>) shapeRadius bs
           = ballCollisions cfg shapeRadius bs
       \<and> pairPass width height env
           = ballCollisions (config env) (shapeRadiusOf width height) (wallPass width height env)"
proof -
  note ex = resolvePair_head_on [OF assms(2-6)]
  show ?thesis
    unfolding ex
    by (simp add: assms(3,4) add_def dot_def ballCollisions_def Let_def pairPass_def)
qed

text \<open>
  Radius 5, centres 8 apart, velocities \<open>(3, 0)\<close> and \<open>(-3, 0)\<close>: they leave with
  \<open>(-3, 0)\<close> and \<open>(3, 0)\<close>.
\<close>

theorem head_on_pair_exchange_witness:
  "mag (sub (pos rightBall) (pos leftBall)) = 8
   \<and> vel (fst (resolvePair leftBall rightBall)) = \<lparr>vx = - 3, vy = 0\<rparr>
   \<and> vel (snd (resolvePair leftBall rightBall)) = \<lparr>vx = 3, vy = 0\<rparr>"
proof -
  have m: "mag (sub (pos rightBall) (pos leftBall)) = 8"
    by (simp add: rightBall_def leftBall_def sub_def mag_axis)
  have h: "mag (sub (pos rightBall) (pos leftBall)) < radius leftBall + radius rightBall"
    unfolding m by (simp add: rightBall_def leftBall_def)
  show ?thesis
    using head_on_pair_exchange [of leftBall rightBall 3, OF _ _ _ _ _ h]
    by (simp add: m) (simp add: rightBall_def leftBall_def)
qed

section \<open>Facts about the grid\<close>

lemma gridPush_keys:
  "map fst (gridPush k i g) = (if k \<in> fst ` set g then map fst g else map fst g @ [k])"
  by (induction g) (auto split: if_splits)

lemma gridPush_distinct: "distinct (map fst g) \<Longrightarrow> distinct (map fst (gridPush k i g))"
  by (simp add: gridPush_keys)

lemma gridPush_map_of:
  "map_of (gridPush k i g)
     = (map_of g)(k \<mapsto> (case map_of g k of None \<Rightarrow> [i] | Some c \<Rightarrow> c @ [i]))"
proof (induction g)
  case Nil
  then show ?case by simp
next
  case (Cons e g)
  obtain k' c where e: "e = (k', c)" by (cases e)
  show ?case
  proof (cases "k' = k")
    case True
    then show ?thesis by (auto simp: e)
  next
    case False
    then show ?thesis by (intro ext) (simp add: e Cons.IH)
  qed
qed

lemma populate_map_of:
  "map_of (fold (\<lambda>i g. gridPush (key i) i g) is g) k
     = (case map_of g k of
          None \<Rightarrow> (if filter (\<lambda>i. key i = k) is = [] then None
                    else Some (filter (\<lambda>i. key i = k) is))
        | Some c \<Rightarrow> Some (c @ filter (\<lambda>i. key i = k) is))"
proof (induction "is" arbitrary: g)
  case Nil
  then show ?case by (simp split: option.split)
next
  case (Cons i "is")
  show ?case
    by (simp add: Cons.IH gridPush_map_of split: option.split)
qed

lemma populate_distinct:
  "distinct (map fst g) \<Longrightarrow> distinct (map fst (fold (\<lambda>i g. gridPush (key i) i g) is g))"
  by (induction "is" arbitrary: g) (simp_all add: gridPush_distinct)

lemma populateGrid_get:
  "gridGet (populateGrid cs wb bs) k
     = (if filter (\<lambda>i. cellKey cs wb (bs ! i) = k) [0..<length bs] = [] then None
        else Some (filter (\<lambda>i. cellKey cs wb (bs ! i) = k) [0..<length bs]))"
  by (simp add: gridGet_def populateGrid_def populate_map_of)

lemma populateGrid_distinct: "distinct (map fst (populateGrid cs wb bs))"
  unfolding populateGrid_def by (rule populate_distinct) simp

lemma populateGrid_entry:
  "(k, c) \<in> set (populateGrid cs wb bs) \<longleftrightarrow> gridGet (populateGrid cs wb bs) k = Some c"
  unfolding gridGet_def
  using populateGrid_distinct [of cs wb bs] by (auto dest: map_of_SomeD)

lemma populateGrid_valid:
  "gridGet (populateGrid cs wb bs) k = Some c \<Longrightarrow> set c \<subseteq> {..<length bs}"
  by (auto simp: populateGrid_get split: if_splits)

lemma populateGrid_has:
  assumes "i < length bs"
  shows "\<exists>c. gridGet (populateGrid cs wb bs) (cellKey cs wb (bs ! i)) = Some c \<and> i \<in> set c"
proof -
  let ?c = "filter (\<lambda>j. cellKey cs wb (bs ! j) = cellKey cs wb (bs ! i)) [0..<length bs]"
  have m: "i \<in> set ?c" using assms by simp
  then have ne: "?c \<noteq> []" by (auto simp: filter_empty_conv)
  have "gridGet (populateGrid cs wb bs) (cellKey cs wb (bs ! i)) = Some ?c"
    unfolding populateGrid_get using ne by (simp only: if_False)
  then show ?thesis using m by blast
qed


section \<open>What the pair loops keep\<close>

lemma pairKey_sym: "pairKey x y = pairKey y x"
  by (auto simp: pairKey_def)

lemma bids_collide: "map bid (collide a b bs) = map bid bs"
  using frame_collide [of a b bs] by (simp add: frameOf_def)

lemma pairInv_checkPair:
  assumes "pairInv ids s" and "a < length ids" and "b < length ids"
  shows "pairInv ids (checkPair a b s)"
proof -
  have ids: "map bid (store s) = ids" using assms(1) by (simp add: pairInv_def)
  have A: "bid (store s ! a) = ids ! a" and B: "bid (store s ! b) = ids ! b"
    using assms(2,3) unfolding ids [symmetric] by simp_all
  show ?thesis
  proof (cases "ids ! a = ids ! b \<or> pairKey (ids ! a) (ids ! b) \<in> checkedPairs s")
    case True
    then have "checkPair a b s = s"
      by (auto simp: checkPair_def Let_def A B)
    then show ?thesis using assms(1) by simp
  next
    case False
    then have c: "checkPair a b s
        = s\<lparr>checkedPairs := insert (pairKey (ids ! a) (ids ! b)) (checkedPairs s),
             store := collide a b (store s),
             resolved := resolved s @ [(a, b)]\<rparr>"
      by (simp add: checkPair_def Let_def A B)
    show ?thesis
      unfolding c using assms False
      by (auto simp: pairInv_def bids_collide keyOf_def)
  qed
qed


lemma pairInv_checkCells:
  assumes "pairInv ids s" and "set as \<subseteq> {..<length ids}" and "set bs \<subseteq> {..<length ids}"
  shows "pairInv ids (checkCells as bs s)"
  unfolding checkCells_def
proof (rule fold_keeps_on [where P = "pairInv ids"])
  show "pairInv ids s" by (rule assms(1))
next
  fix a t
  assume a: "a \<in> set as" and t: "pairInv ids t"
  show "pairInv ids (fold (checkPair a) bs t)"
  proof (rule fold_keeps_on [where P = "pairInv ids"])
    show "pairInv ids t" by (rule t)
  next
    fix b u
    assume "b \<in> set bs" and "pairInv ids u"
    then show "pairInv ids (checkPair a b u)"
      using a assms(2,3) by (auto intro: pairInv_checkPair)
  qed
qed

lemma validGrid_entry: "validGrid n g \<Longrightarrow> (k, c) \<in> set g \<Longrightarrow> set c \<subseteq> {..<n}"
  by (fastforce simp: validGrid_def list_all_iff)

lemma validGrid_get: "validGrid n g \<Longrightarrow> gridGet g k = Some c \<Longrightarrow> set c \<subseteq> {..<n}"
  unfolding gridGet_def by (blast dest: map_of_SomeD validGrid_entry)

lemma populateGrid_validGrid: "validGrid (length bs) (populateGrid cs wb bs)"
  unfolding validGrid_def list_all_iff
  using populateGrid_valid [of cs wb bs] populateGrid_entry [of _ _ cs wb bs]
  by (metis prod.collapse)

lemma pairInv_checkNeighbor:
  assumes "pairInv ids s" and "validGrid (length ids) g" and "set c \<subseteq> {..<length ids}"
  shows "pairInv ids (checkNeighbor g k c dx dy s)"
  using assms
  by (auto simp: checkNeighbor_def split: option.split
      intro!: pairInv_checkCells dest: validGrid_get)

lemma pairInv_checkCell:
  assumes "pairInv ids s" and "validGrid (length ids) g" and "set (snd e) \<subseteq> {..<length ids}"
  shows "pairInv ids (checkCell g e s)"
  unfolding checkCell_def
  by (rule fold_keeps [where P = "pairInv ids"],
      rule fold_keeps [where P = "pairInv ids"])
    (simp_all add: assms pairInv_checkNeighbor)

lemma pairInv_init: "pairInv (map bid bs) \<lparr>store = bs, checkedPairs = {}, resolved = []\<rparr>"
  by (simp add: pairInv_def)

lemma pairInv_ballCollisions: "pairInv (map bid bs) (ballCollisions cfg R bs)"
proof -
  let ?g = "populateGrid (ballSize cfg * 2.5) (R * 1.1) bs"
  have v: "validGrid (length (map bid bs)) ?g"
    using populateGrid_validGrid [of bs] by simp
  have "pairInv (map bid bs) (fold (checkCell ?g) ?g \<lparr>store = bs, checkedPairs = {}, resolved = []\<rparr>)"
  proof (rule fold_keeps_on [where P = "pairInv (map bid bs)"])
    show "pairInv (map bid bs) \<lparr>store = bs, checkedPairs = {}, resolved = []\<rparr>"
      by (rule pairInv_init)
  next
    fix e s
    assume "e \<in> set ?g" and s: "pairInv (map bid bs) s"
    then have "set (snd e) \<subseteq> {..<length (map bid bs)}"
      using v validGrid_entry [of _ ?g "fst e" "snd e"] by simp
    then show "pairInv (map bid bs) (checkCell ?g e s)"
      using s v by (rule pairInv_checkCell [rotated 2])
  qed
  then show ?thesis
    by (simp add: ballCollisions_def Let_def pairInv_init)
qed

section \<open>Pairs are resolved at most once\<close>

text \<open>
  C7: within one run of step 4 (so within one tick: the step runs it once, on the balls
  that step 3 left), the collision logic is run at most once for a pair of balls,
  whatever the order in which the loops meet the two.
\<close>

theorem pair_resolved_at_most_once:
  "length (filter (\<lambda>p. p = (a, b) \<or> p = (b, a)) (resolved (ballCollisions cfg shapeRadius bs)))
     \<le> 1"
proof -
  let ?s = "ballCollisions cfg shapeRadius bs"
  let ?ids = "map bid bs"
  let ?xs = "filter (\<lambda>p. p = (a, b) \<or> p = (b, a)) (resolved ?s)"
  have "distinct (map (keyOf ?ids) (resolved ?s))"
    using pairInv_ballCollisions [of bs cfg shapeRadius] by (simp add: pairInv_def)
  then have d: "distinct (map (keyOf ?ids) ?xs)"
    by (rule distinct_map_filter)
  have "keyOf ?ids p = pairKey (?ids ! a) (?ids ! b)" if "p \<in> set ?xs" for p
    using that by (auto simp: keyOf_def pairKey_sym)
  with d show ?thesis by (rule distinct_const_length)
qed


text \<open>
  Two overlapping balls in the neighbouring cells \<open>(39, 39)\<close> and \<open>(40, 39)\<close>: each is in
  the neighbourhood of the other's cell, the pair is met from both cells, and the
  collision logic runs once.
\<close>

lemma exampleGrid:
  "populateGrid (25 / 2) 495 [leftBall, rightBall] = [((39, 39), [0]), ((40, 39), [1])]"
  by (simp add: populateGrid_def cellKey_def leftBall_def rightBall_def)

lemma examplePairKey:
  "pairKey ''sim-0'' ''sim-1'' = ''sim-0|sim-1''"
  "pairKey ''sim-1'' ''sim-0'' = ''sim-0|sim-1''"
  by (simp_all add: pairKey_def)

lemma exampleBids: "bid leftBall = ''sim-0''" "bid rightBall = ''sim-1''"
  by (simp_all add: leftBall_def rightBall_def)

lemma exampleResolvePair:
  "resolvePair leftBall rightBall
     = (leftBall\<lparr>pos := \<lparr>vx = - 1, vy = 0\<rparr>, vel := \<lparr>vx = - 3, vy = 0\<rparr>\<rparr>,
        rightBall\<lparr>pos := \<lparr>vx = 9, vy = 0\<rparr>, vel := \<lparr>vx = 3, vy = 0\<rparr>\<rparr>)"
  by (simp add: resolvePair_def Let_def leftBall_def rightBall_def sub_def mag_axis
      normalize_axis dot_def mult_def add_def)

lemma pair_phase_example:
  "resolved (ballCollisions exampleConfig 450 [leftBall, rightBall]) = [(0, 1)]
   \<and> store (ballCollisions exampleConfig 450 [leftBall, rightBall])
       = [leftBall\<lparr>pos := \<lparr>vx = - 1, vy = 0\<rparr>, vel := \<lparr>vx = - 3, vy = 0\<rparr>\<rparr>,
          rightBall\<lparr>pos := \<lparr>vx = 9, vy = 0\<rparr>, vel := \<lparr>vx = 3, vy = 0\<rparr>\<rparr>]"
  apply (simp add: ballCollisions_def Let_def exampleConfig_def exampleGrid)
  apply (simp add: checkCell_def checkNeighbor_def gridGet_def checkCells_def)
  apply (simp add: checkPair_def Let_def examplePairKey exampleBids collide_def
      exampleResolvePair)
  done

section \<open>Completeness of the broad phase\<close>

lemma sep_inj:
  "c \<notin> set x \<Longrightarrow> c \<notin> set u \<Longrightarrow> x @ c # y = u @ c # v \<Longrightarrow> x = u \<and> y = v"
proof (induction x arbitrary: u)
  case Nil
  then show ?case by (cases u) auto
next
  case (Cons a x)
  then show ?case by (cases u) auto
qed

lemma pairKey_cases:
  obtains "pairKey x y = x @ CHR ''|'' # y" | "pairKey x y = y @ CHR ''|'' # x"
  by (cases "x < y") (simp_all add: pairKey_def)

lemma pairKey_inj:
  assumes x: "CHR ''|'' \<notin> set x" and y: "CHR ''|'' \<notin> set y"
    and u: "CHR ''|'' \<notin> set u" and v: "CHR ''|'' \<notin> set v"
    and eq: "pairKey x y = pairKey u v"
  shows "(x = u \<and> y = v) \<or> (x = v \<and> y = u)"
proof (cases x y rule: pairKey_cases)
  case 1
  show ?thesis
  proof (cases u v rule: pairKey_cases)
    case 1
    with \<open>pairKey x y = x @ CHR ''|'' # y\<close> eq
    have "x @ CHR ''|'' # y = u @ CHR ''|'' # v" by (simp only:)
    then show ?thesis using sep_inj [OF x u] by blast
  next
    case 2
    with \<open>pairKey x y = x @ CHR ''|'' # y\<close> eq
    have "x @ CHR ''|'' # y = v @ CHR ''|'' # u" by (simp only:)
    then show ?thesis using sep_inj [OF x v] by blast
  qed
next
  case 2
  show ?thesis
  proof (cases u v rule: pairKey_cases)
    case 1
    with \<open>pairKey x y = y @ CHR ''|'' # x\<close> eq
    have "y @ CHR ''|'' # x = u @ CHR ''|'' # v" by (simp only:)
    then show ?thesis using sep_inj [OF y u] by blast
  next
    case 2
    with \<open>pairKey x y = y @ CHR ''|'' # x\<close> eq
    have "y @ CHR ''|'' # x = v @ CHR ''|'' # u" by (simp only:)
    then show ?thesis using sep_inj [OF y v] by blast
  qed
qed

lemma reached_keep: "reached a b s \<Longrightarrow> reached a b (checkPair x y s)"
  by (auto simp: reached_def checkPair_def Let_def)

lemma plainIds_distinctKeys: "plainIds ids \<Longrightarrow> distinctKeys ids"
  unfolding plainIds_def distinctKeys_def list_all_iff
  by (blast dest: pairKey_inj)

lemma reached_checkPair:
  assumes inv: "pairInv ids s" and a: "a < length ids" and b: "b < length ids"
    and ab: "a \<noteq> b" and keys: "distinctKeys ids"
  shows "reached a b (checkPair a b s)"
proof -
  have ids: "map bid (store s) = ids" using inv by (simp add: pairInv_def)
  have A: "bid (store s ! a) = ids ! a" and B: "bid (store s ! b) = ids ! b"
    using a b unfolding ids [symmetric] by simp_all
  have d: "distinct ids" using keys by (simp add: distinctKeys_def)
  have ne: "ids ! a \<noteq> ids ! b"
    using d a b ab by (simp add: nth_eq_iff_index_eq)
  show ?thesis
  proof (cases "pairKey (ids ! a) (ids ! b) \<in> checkedPairs s")
    case True
    then obtain p where p: "p \<in> set (resolved s)"
      and k: "keyOf ids p = pairKey (ids ! a) (ids ! b)"
      using inv by (auto simp: pairInv_def)
    have pv: "fst p < length ids" "snd p < length ids"
      using inv p by (auto simp: pairInv_def list_all_iff)
    have mem: "ids ! fst p \<in> set ids" "ids ! snd p \<in> set ids"
      "ids ! a \<in> set ids" "ids ! b \<in> set ids"
      using pv a b by simp_all
    have "(ids ! fst p = ids ! a \<and> ids ! snd p = ids ! b)
        \<or> (ids ! fst p = ids ! b \<and> ids ! snd p = ids ! a)"
      using keys k mem unfolding keyOf_def distinctKeys_def by blast
    then have "(fst p = a \<and> snd p = b) \<or> (fst p = b \<and> snd p = a)"
      using d pv a b by (simp add: nth_eq_iff_index_eq)
    then have "p = (a, b) \<or> p = (b, a)" by (cases p) auto
    then have "reached a b s" using p by (auto simp: reached_def)
    then show ?thesis by (rule reached_keep)
  next
    case False
    then show ?thesis
      using ne by (simp add: checkPair_def Let_def A B reached_def)
  qed
qed

lemma reached_keep_checkCells: "reached a b s \<Longrightarrow> reached a b (checkCells as bs s)"
  unfolding checkCells_def
  by (rule fold_keeps [where P = "reached a b"],
      rule fold_keeps [where P = "reached a b"])
    (simp_all add: reached_keep)

lemma reached_keep_checkNeighbor:
  "reached a b s \<Longrightarrow> reached a b (checkNeighbor g k c dx dy s)"
  by (simp add: checkNeighbor_def reached_keep_checkCells split: option.split)

lemma reached_keep_checkCell: "reached a b s \<Longrightarrow> reached a b (checkCell g e s)"
  unfolding checkCell_def
  by (rule fold_keeps [where P = "reached a b"],
      rule fold_keeps [where P = "reached a b"])
    (simp_all add: reached_keep_checkNeighbor)

lemma reached_checkCells:
  assumes inv: "pairInv ids s" and va: "set as \<subseteq> {..<length ids}"
    and vb: "set bs \<subseteq> {..<length ids}"
    and a: "a \<in> set as" and b: "b \<in> set bs" and ab: "a \<noteq> b" and keys: "distinctKeys ids"
  shows "reached a b (checkCells as bs s)"
  unfolding checkCells_def
proof (rule fold_reaches [where I = "pairInv ids" and x = a])
  show "a \<in> set as" by (rule a)
  show "pairInv ids s" by (rule inv)
next
  fix y t
  assume "y \<in> set as" and "pairInv ids t"
  then show "pairInv ids (fold (checkPair y) bs t)"
    using pairInv_checkCells [of ids t "[y]" bs] va vb by (auto simp: checkCells_def)
next
  fix y t
  assume "reached a b t"
  then show "reached a b (fold (checkPair y) bs t)"
    by (rule fold_keeps [where P = "reached a b", rotated]) (rule reached_keep)
next
  fix t
  assume t: "pairInv ids t"
  show "reached a b (fold (checkPair a) bs t)"
  proof (rule fold_reaches [where I = "pairInv ids" and x = b])
    show "b \<in> set bs" by (rule b)
    show "pairInv ids t" by (rule t)
  next
    fix y u
    assume "y \<in> set bs" and "pairInv ids u"
    then show "pairInv ids (checkPair a y u)"
      using a va vb by (auto intro: pairInv_checkPair)
  next
    fix y u
    assume "reached a b u"
    then show "reached a b (checkPair a y u)" by (rule reached_keep)
  next
    fix u
    assume "pairInv ids u"
    then show "reached a b (checkPair a b u)"
      using a b va vb ab keys by (auto intro: reached_checkPair)
  qed
qed


lemma reached_checkNeighbor:
  assumes inv: "pairInv ids s" and vg: "validGrid (length ids) g"
    and vc: "set c \<subseteq> {..<length ids}"
    and get: "gridGet g (fst k + dx, snd k + dy) = Some nb"
    and a: "a \<in> set c" and b: "b \<in> set nb" and ab: "a \<noteq> b" and keys: "distinctKeys ids"
  shows "reached a b (checkNeighbor g k c dx dy s)"
proof -
  have "set nb \<subseteq> {..<length ids}" using vg get by (rule validGrid_get)
  then show ?thesis
    using assms by (simp add: checkNeighbor_def reached_checkCells)
qed

lemma near_in_list: "\<bar>d\<bar> \<le> 1 \<Longrightarrow> d \<in> set [- 1, 0, 1 :: int]"
  by auto

lemma reached_checkCell:
  assumes inv: "pairInv ids s" and vg: "validGrid (length ids) g"
    and vc: "set (snd e) \<subseteq> {..<length ids}"
    and dx: "\<bar>dx\<bar> \<le> 1" and dy: "\<bar>dy\<bar> \<le> 1"
    and get: "gridGet g (fst (fst e) + dx, snd (fst e) + dy) = Some nb"
    and a: "a \<in> set (snd e)" and b: "b \<in> set nb" and ab: "a \<noteq> b" and keys: "distinctKeys ids"
  shows "reached a b (checkCell g e s)"
  unfolding checkCell_def
proof (rule fold_reaches [where I = "pairInv ids" and x = dx])
  show "dx \<in> set [- 1, 0, 1]" using dx by (rule near_in_list)
  show "pairInv ids s" by (rule inv)
next
  fix x t
  assume "pairInv ids t"
  then show "pairInv ids (fold (checkNeighbor g (fst e) (snd e) x) [- 1, 0, 1] t)"
    by (rule fold_keeps [where P = "pairInv ids", rotated])
      (simp add: pairInv_checkNeighbor vg vc)
next
  fix x t
  assume "reached a b t"
  then show "reached a b (fold (checkNeighbor g (fst e) (snd e) x) [- 1, 0, 1] t)"
    by (rule fold_keeps [where P = "reached a b", rotated])
      (rule reached_keep_checkNeighbor)
next
  fix t
  assume t: "pairInv ids t"
  show "reached a b (fold (checkNeighbor g (fst e) (snd e) dx) [- 1, 0, 1] t)"
  proof (rule fold_reaches [where I = "pairInv ids" and x = dy])
    show "dy \<in> set [- 1, 0, 1]" using dy by (rule near_in_list)
    show "pairInv ids t" by (rule t)
  next
    fix y u
    assume "pairInv ids u"
    then show "pairInv ids (checkNeighbor g (fst e) (snd e) dx y u)"
      by (simp add: pairInv_checkNeighbor vg vc)
  next
    fix y u
    assume "reached a b u"
    then show "reached a b (checkNeighbor g (fst e) (snd e) dx y u)"
      by (rule reached_keep_checkNeighbor)
  next
    fix u
    assume "pairInv ids u"
    then show "reached a b (checkNeighbor g (fst e) (snd e) dx dy u)"
      using vg vc get a b ab keys by (rule reached_checkNeighbor)
  qed
qed

lemma reached_ballCollisions:
  assumes a: "a < length bs" and b: "b < length bs" and ab: "a \<noteq> b"
    and keys: "distinctKeys (map bid bs)"
    and dx: "\<bar>fst (cellKey (ballSize cfg * 2.5) (R * 1.1) (bs ! b))
              - fst (cellKey (ballSize cfg * 2.5) (R * 1.1) (bs ! a))\<bar> \<le> 1"
    and dy: "\<bar>snd (cellKey (ballSize cfg * 2.5) (R * 1.1) (bs ! b))
              - snd (cellKey (ballSize cfg * 2.5) (R * 1.1) (bs ! a))\<bar> \<le> 1"
  shows "reached a b (ballCollisions cfg R bs)"
proof -
  let ?cs = "ballSize cfg * 2.5" and ?wb = "R * 1.1"
  let ?g = "populateGrid ?cs ?wb bs"
  let ?ids = "map bid bs"
  let ?ka = "cellKey ?cs ?wb (bs ! a)" and ?kb = "cellKey ?cs ?wb (bs ! b)"
  obtain ca where ca: "gridGet ?g ?ka = Some ca" and aca: "a \<in> set ca"
    using populateGrid_has [OF a] by blast
  obtain cb where cb: "gridGet ?g ?kb = Some cb" and bcb: "b \<in> set cb"
    using populateGrid_has [OF b] by blast
  have e: "(?ka, ca) \<in> set ?g" using ca by (simp add: populateGrid_entry)
  have vg: "validGrid (length ?ids) ?g"
    using populateGrid_validGrid [of bs] by simp
  have inv: "\<And>y s. y \<in> set ?g \<Longrightarrow> pairInv ?ids s \<Longrightarrow> pairInv ?ids (checkCell ?g y s)"
  proof -
    fix y s
    assume "y \<in> set ?g" and s: "pairInv ?ids s"
    then have "set (snd y) \<subseteq> {..<length ?ids}"
      using vg validGrid_entry [of _ ?g "fst y" "snd y"] by simp
    with s vg show "pairInv ?ids (checkCell ?g y s)" by (rule pairInv_checkCell)
  qed
  have get: "gridGet ?g (fst (fst (?ka, ca)) + (fst ?kb - fst ?ka),
      snd (fst (?ka, ca)) + (snd ?kb - snd ?ka)) = Some cb"
    using cb by simp
  have "reached a b (fold (checkCell ?g) ?g \<lparr>store = bs, checkedPairs = {}, resolved = []\<rparr>)"
  proof (rule fold_reaches [where I = "pairInv ?ids" and x = "(?ka, ca)"])
    show "(?ka, ca) \<in> set ?g" by (rule e)
    show "pairInv ?ids \<lparr>store = bs, checkedPairs = {}, resolved = []\<rparr>" by (rule pairInv_init)
  next
    fix y s
    assume "y \<in> set ?g" and "pairInv ?ids s"
    then show "pairInv ?ids (checkCell ?g y s)" by (rule inv)
  next
    fix y s
    assume "reached a b s"
    then show "reached a b (checkCell ?g y s)" by (rule reached_keep_checkCell)
  next
    fix s
    assume s: "pairInv ?ids s"
    have vc: "set (snd (?ka, ca)) \<subseteq> {..<length ?ids}"
      using vg e validGrid_entry [of _ ?g ?ka ca] by simp
    show "reached a b (checkCell ?g (?ka, ca) s)"
      using s vg vc dx dy get _ bcb ab keys
      by (rule reached_checkCell) (simp add: aca)
  qed
  moreover have "1 < length bs" using a b ab by auto
  ultimately show ?thesis by (simp add: ballCollisions_def Let_def)
qed

lemma floor_near: "\<bar>p - q\<bar> < 1 \<Longrightarrow> \<bar>\<lfloor>p\<rfloor> - \<lfloor>q :: real\<rfloor>\<bar> \<le> 1"
  by linarith

lemma cell_coordinate_near:
  fixes p q wb sz :: real
  assumes "\<bar>q - p\<bar> < 2 * sz"
  shows "\<bar>\<lfloor>(q + wb) / (sz * 2.5)\<rfloor> - \<lfloor>(p + wb) / (sz * 2.5)\<rfloor>\<bar> \<le> 1"
proof -
  have s: "0 < sz" using assms by linarith
  have "(q + wb) / (sz * 2.5) - (p + wb) / (sz * 2.5) = (q - p) / (sz * 2.5)"
    by (simp add: diff_divide_distrib add_divide_distrib)
  moreover have "\<bar>(q - p) / (sz * 2.5)\<bar> < 1"
    using assms s by (simp add: abs_divide field_simps abs_if split: if_splits)
  ultimately show ?thesis
    using floor_near [of "(q + wb) / (sz * 2.5)" "(p + wb) / (sz * 2.5)"] by simp
qed

lemma overlapping_cells_near:
  assumes ra: "radius ballA = sz" and rb: "radius ballB = sz"
    and hit: "mag (sub (pos ballB) (pos ballA)) < radius ballA + radius ballB"
  shows "\<bar>fst (cellKey (sz * 2.5) wb ballB) - fst (cellKey (sz * 2.5) wb ballA)\<bar> \<le> 1"
    and "\<bar>snd (cellKey (sz * 2.5) wb ballB) - snd (cellKey (sz * 2.5) wb ballA)\<bar> \<le> 1"
proof -
  have x: "\<bar>vx (pos ballB) - vx (pos ballA)\<bar> < 2 * sz"
    using abs_vx_le_mag [of "sub (pos ballB) (pos ballA)"] hit ra rb by (simp add: sub_def)
  have y: "\<bar>vy (pos ballB) - vy (pos ballA)\<bar> < 2 * sz"
    using abs_vy_le_mag [of "sub (pos ballB) (pos ballA)"] hit ra rb by (simp add: sub_def)
  show "\<bar>fst (cellKey (sz * 2.5) wb ballB) - fst (cellKey (sz * 2.5) wb ballA)\<bar> \<le> 1"
    using cell_coordinate_near [OF x] by (simp add: cellKey_def)
  show "\<bar>snd (cellKey (sz * 2.5) wb ballB) - snd (cellKey (sz * 2.5) wb ballA)\<bar> \<le> 1"
    using cell_coordinate_near [OF y] by (simp add: cellKey_def)
qed


text \<open>
  C6: two balls whose circles overlap, every ball having the radius \<open>ballSize\<close>, with
  cells of size \<open>ballSize * 2.5\<close>. The cells of the two differ by at most 1 in each
  axis; the cell of the first is an entry of the grid, and the lookup of the
  neighbour at that offset gives a cell that holds the second; and, when the ids are
  pairwise different and the key of line 161 tells the pairs of ids apart (as it does
  for ids free of the separator \<^verbatim>\<open>|\<close>), the collision logic is run for the pair.
\<close>

theorem broad_phase_complete:
  assumes sizes: "\<forall>ball \<in> set bs. radius ball = ballSize cfg"
    and a: "a < length bs" and b: "b < length bs" and ab: "a \<noteq> b"
    and hit: "mag (sub (pos (bs ! b)) (pos (bs ! a))) < radius (bs ! a) + radius (bs ! b)"
  shows "let cellSize = ballSize cfg * 2.5;
             worldBounds = shapeRadius * 1.1;
             grid = populateGrid cellSize worldBounds bs;
             cellA = cellKey cellSize worldBounds (bs ! a);
             cellB = cellKey cellSize worldBounds (bs ! b);
             dx = fst cellB - fst cellA;
             dy = snd cellB - snd cellA
         in \<bar>dx\<bar> \<le> 1 \<and> \<bar>dy\<bar> \<le> 1
            \<and> (\<exists>cellBalls. (cellA, cellBalls) \<in> set grid \<and> a \<in> set cellBalls)
            \<and> (\<exists>neighborBalls.
                  gridGet grid (fst cellA + dx, snd cellA + dy) = Some neighborBalls
                  \<and> b \<in> set neighborBalls)
            \<and> (distinctKeys (map bid bs) \<longrightarrow>
                  (a, b) \<in> set (resolved (ballCollisions cfg shapeRadius bs))
                  \<or> (b, a) \<in> set (resolved (ballCollisions cfg shapeRadius bs)))"
proof -
  let ?cs = "ballSize cfg * 2.5" and ?wb = "shapeRadius * 1.1"
  let ?g = "populateGrid ?cs ?wb bs"
  let ?ka = "cellKey ?cs ?wb (bs ! a)" and ?kb = "cellKey ?cs ?wb (bs ! b)"
  have ra: "radius (bs ! a) = ballSize cfg" and rb: "radius (bs ! b) = ballSize cfg"
    using sizes a b by simp_all
  note near = overlapping_cells_near [OF ra rb hit, of ?wb]
  obtain ca where ca: "gridGet ?g ?ka = Some ca" and aca: "a \<in> set ca"
    using populateGrid_has [OF a] by blast
  obtain cb where cb: "gridGet ?g ?kb = Some cb" and bcb: "b \<in> set cb"
    using populateGrid_has [OF b] by blast
  have e: "(?ka, ca) \<in> set ?g" using ca by (simp add: populateGrid_entry)
  have r: "(a, b) \<in> set (resolved (ballCollisions cfg shapeRadius bs))
      \<or> (b, a) \<in> set (resolved (ballCollisions cfg shapeRadius bs))"
    if "distinctKeys (map bid bs)"
  proof -
    have "reached a b (ballCollisions cfg shapeRadius bs)"
      using that a b ab near by (intro reached_ballCollisions)
    then show ?thesis by (simp add: reached_def)
  qed
  have n: "gridGet ?g (fst ?ka + (fst ?kb - fst ?ka), snd ?ka + (snd ?kb - snd ?ka)) = Some cb"
    using cb by simp
  show ?thesis
    unfolding Let_def using near e aca n bcb r by blast
qed

theorem broad_phase_complete_witness:
  "mag (sub (pos rightBall) (pos leftBall)) = 8
   \<and> cellKey (ballSize exampleConfig * 2.5) (450 * 1.1) leftBall = (39, 39)
   \<and> cellKey (ballSize exampleConfig * 2.5) (450 * 1.1) rightBall = (40, 39)
   \<and> ((0, 1) \<in> set (resolved (ballCollisions exampleConfig 450 [leftBall, rightBall]))
        \<or> (1, 0) \<in> set (resolved (ballCollisions exampleConfig 450 [leftBall, rightBall])))"
proof -
  have m: "mag (sub (pos rightBall) (pos leftBall)) = 8"
    by (simp add: rightBall_def leftBall_def sub_def mag_axis)
  have sizes: "\<forall>ball \<in> set [leftBall, rightBall]. radius ball = ballSize exampleConfig"
    by (simp add: rightBall_def leftBall_def exampleConfig_def)
  have hit: "mag (sub (pos ([leftBall, rightBall] ! 1)) (pos ([leftBall, rightBall] ! 0)))
      < radius ([leftBall, rightBall] ! 0) + radius ([leftBall, rightBall] ! 1)"
    by (simp add: m) (simp add: rightBall_def leftBall_def)
  have "plainIds (map bid [leftBall, rightBall])"
    by (simp add: plainIds_def exampleBids)
  then have ids: "distinctKeys (map bid [leftBall, rightBall])"
    by (rule plainIds_distinctKeys)
  have k: "cellKey (ballSize exampleConfig * 2.5) (450 * 1.1) leftBall = (39, 39)"
    "cellKey (ballSize exampleConfig * 2.5) (450 * 1.1) rightBall = (40, 39)"
    by (simp_all add: cellKey_def exampleConfig_def leftBall_def rightBall_def)
  show ?thesis
    using broad_phase_complete [OF sizes _ _ _ hit, of 450] ids m k
    by (simp add: Let_def)
qed

section \<open>Steps without collisions\<close>

lemma mult_one: "mult v 1 = v"
  by (simp add: mult_def)

lemma integrate_no_forces:
  assumes "gravity cfg = 0" and "friction cfg = 0"
  shows "vel (integrate cfg gs b) = dragged (timeScale gs) (vel b)"
proof -
  have "vel (integrate cfg gs b)
      = (if mag (vel b) > 0.001
         then add (vel b) (mult (mult (vel b) (- 0.003 * mag (vel b))) (timeScale gs))
         else vel b)"
    using assms by (simp add: integrate_def Let_def mult_one)
  also have "\<dots> = dragged (timeScale gs) (vel b)"
    by (simp add: dragged_def mult_def add_def algebra_simps)
  finally show ?thesis .
qed

lemma updateBall_clear:
  assumes "wallsClear vs (integrate cfg gs b)"
  shows "updateBall cfg gs vs b = integrate cfg gs b"
  unfolding updateBall_def Let_def
proof (rule fold_id)
  fix k
  assume "k \<in> set [0..<length vs]"
  then show "resolveEdge (restitution cfg * bouncinessMultiplier gs) vs k (integrate cfg gs b)
      = integrate cfg gs b"
    using assms by (simp add: wallsClear_def list_all_iff resolveEdge_def collideEdge_def Let_def)
qed

lemma resolvePair_apart:
  "\<not> mag (sub (pos B) (pos A)) < radius A + radius B \<Longrightarrow> resolvePair A B = (A, B)"
  by (simp add: resolvePair_def Let_def)

lemma checkPair_apart:
  assumes ap: "apart bs" and s: "store s = bs" and a: "a < length bs" and b: "b < length bs"
  shows "store (checkPair a b s) = bs"
proof (cases "a = b")
  case True
  then show ?thesis using s by (simp add: checkPair_def Let_def)
next
  case False
  have "\<not> mag (sub (pos (bs ! b)) (pos (bs ! a))) < radius (bs ! a) + radius (bs ! b)"
  proof -
    have "\<forall>x \<in> set [0..<length bs]. \<forall>y \<in> set [0..<length bs]. x = y
        \<or> \<not> mag (sub (pos (bs ! y)) (pos (bs ! x))) < radius (bs ! x) + radius (bs ! y)"
      using ap by (simp add: apart_def list_all_iff)
    moreover have "a \<in> set [0..<length bs]" and "b \<in> set [0..<length bs]"
      using a b by simp_all
    ultimately show ?thesis using False by blast
  qed
  then have "collide a b bs = bs"
    by (simp add: collide_def resolvePair_apart)
  then show ?thesis using s by (simp add: checkPair_def Let_def)
qed

lemma pair_loops_invariant:
  assumes step: "\<And>a b s. a < n \<Longrightarrow> b < n \<Longrightarrow> P s \<Longrightarrow> P (checkPair a b s)"
    and vg: "validGrid n g" and init: "P s"
  shows "P (fold (checkCell g) g s)"
proof -
  have cells: "P (checkCells as bs t)"
    if "P t" and "set as \<subseteq> {..<n}" and "set bs \<subseteq> {..<n}" for as bs t
    unfolding checkCells_def
  proof (rule fold_keeps_on [where P = P])
    show "P t" by (rule that(1))
  next
    fix a u
    assume a: "a \<in> set as" and u: "P u"
    show "P (fold (checkPair a) bs u)"
    proof (rule fold_keeps_on [where P = P])
      show "P u" by (rule u)
    next
      fix b w
      assume "b \<in> set bs" and "P w"
      then show "P (checkPair a b w)" using a that(2,3) by (auto intro: step)
    qed
  qed
  have nb: "P (checkNeighbor g k c dx dy t)" if "P t" and "set c \<subseteq> {..<n}" for k c dx dy t
    using that vg
    by (auto simp: checkNeighbor_def split: option.split intro!: cells dest: validGrid_get)
  have cell: "P (checkCell g e t)" if "P t" and "e \<in> set g" for e t
  proof -
    have c: "set (snd e) \<subseteq> {..<n}"
      using vg that(2) validGrid_entry [of n g "fst e" "snd e"] by simp
    show ?thesis
      unfolding checkCell_def
      by (rule fold_keeps [where P = P], rule fold_keeps [where P = P])
        (simp_all add: that(1) nb c)
  qed
  show ?thesis
    by (rule fold_keeps_on [where P = P]) (simp_all add: cell init)
qed

lemma ballCollisions_apart:
  assumes "apart bs"
  shows "store (ballCollisions cfg R bs) = bs"
proof -
  have "store (fold (checkCell (populateGrid cs wb bs)) (populateGrid cs wb bs)
      \<lparr>store = bs, checkedPairs = {}, resolved = []\<rparr>) = bs" for cs wb
    by (rule pair_loops_invariant [where n = "length bs" and P = "\<lambda>s. store s = bs"])
      (simp_all add: checkPair_apart assms populateGrid_validGrid)
  then show ?thesis by (simp add: ballCollisions_def Let_def)
qed

lemma quiet_step_velocity:
  assumes g: "gravity (config env) = 0" and f: "friction (config env) = 0"
    and q: "quietStep width height env i"
  shows "balls (state (updatePhysics width height env)) ! i
      = integrate (config env) (globalSettings env) (balls (state env) ! i)"
proof -
  let ?b = "integrate (config env) (globalSettings env) (balls (state env) ! i)"
  have i: "i < length (balls (state env))" using q by (simp add: quietStep_def)
  have w: "wallPass width height env ! i = ?b"
    using q i by (simp add: wallPass_def quietStep_def updateBall_clear)
  have p: "store (pairPass width height env) = wallPass width height env"
    unfolding pairPass_def using q by (simp add: quietStep_def ballCollisions_apart)
  have l: "i < length (wallPass width height env)" using i by (simp add: wallPass_def)
  have "balls (state (updatePhysics width height env)) ! i
      = safetyNet (shapeRadiusOf width height) ?b"
    using l by (simp add: updatePhysics_def p w)
  also have "\<dots> = ?b" using q by (simp add: safetyNet_def quietStep_def)
  finally show ?thesis .
qed

lemma updatePhysics_reads:
  "config (updatePhysics width height env) = config env"
  "globalSettings (updatePhysics width height env) = globalSettings env"
  by (simp_all add: updatePhysics_def)

lemma steps_read:
  "config ((updatePhysics width height ^^ N) env) = config env
   \<and> globalSettings ((updatePhysics width height ^^ N) env) = globalSettings env"
  by (induction N) (simp_all add: updatePhysics_reads)

lemma dragged_fixed_iff: "dragged ts v = v \<longleftrightarrow> mag v \<le> 0.001 \<or> ts = 0"
proof (cases "mag v > 0.001")
  case False
  then show ?thesis by (simp add: dragged_def)
next
  case True
  let ?c = "1 - 0.003 * mag v * ts"
  have nz: "vx v \<noteq> 0 \<or> vy v \<noteq> 0"
    using True mag_zero_iff [of v] by auto
  have "mult v ?c = v \<longleftrightarrow> vx v * ?c = vx v \<and> vy v * ?c = vy v"
  proof
    assume "mult v ?c = v"
    then have "vx (mult v ?c) = vx v" and "vy (mult v ?c) = vy v" by simp_all
    then show "vx v * ?c = vx v \<and> vy v * ?c = vy v" by (simp add: mult_def)
  next
    assume "vx v * ?c = vx v \<and> vy v * ?c = vy v"
    then show "mult v ?c = v" by (simp add: mult_def)
  qed
  also have "\<dots> \<longleftrightarrow> ?c = 1"
    using nz by auto
  also have "\<dots> \<longleftrightarrow> ts = 0"
    using True by auto
  finally show ?thesis using True by (simp add: dragged_def)
qed

text \<open>
  C1, as the code has it: with zero gravity and zero friction, over \<open>N\<close> steps without
  collisions (and without a reset by the safety net), each step applies the quadratic
  drag to the velocity \<open>v\<close> of the body: it becomes \<open>v * (1 - 0.003 |v| timeScale)\<close> when
  \<open>|v| > 0.001\<close> and stays \<open>v\<close> otherwise. A step leaves the velocity as it was exactly
  when \<open>|v| \<le> 0.001\<close> or \<open>timeScale = 0\<close>; so the velocity is unchanged across the \<open>N\<close>
  steps when the speed of the body is at most 0.001 or \<open>timeScale\<close> is 0.
\<close>

theorem no_force_velocity_drag:
  assumes g: "gravity (config env) = 0" and f: "friction (config env) = 0"
    and q: "\<forall>k < N. quietStep width height ((updatePhysics width height ^^ k) env) i"
  shows "vel (balls (state ((updatePhysics width height ^^ N) env)) ! i)
           = (dragged (timeScale (globalSettings env)) ^^ N) (vel (balls (state env) ! i))
       \<and> (mag (vel (balls (state env) ! i)) \<le> 0.001 \<or> timeScale (globalSettings env) = 0 \<longrightarrow>
            vel (balls (state ((updatePhysics width height ^^ N) env)) ! i)
              = vel (balls (state env) ! i))
       \<and> (\<forall>k < N.
            vel (balls (state ((updatePhysics width height ^^ Suc k) env)) ! i)
              = dragged (timeScale (globalSettings env))
                  (vel (balls (state ((updatePhysics width height ^^ k) env)) ! i))
            \<and> (vel (balls (state ((updatePhysics width height ^^ Suc k) env)) ! i)
                  = vel (balls (state ((updatePhysics width height ^^ k) env)) ! i)
                \<longleftrightarrow> mag (vel (balls (state ((updatePhysics width height ^^ k) env)) ! i)) \<le> 0.001
                    \<or> timeScale (globalSettings env) = 0))"
proof -
  let ?ts = "timeScale (globalSettings env)"
  let ?v = "\<lambda>k. vel (balls (state ((updatePhysics width height ^^ k) env)) ! i)"
  have step: "?v (Suc k) = dragged ?ts (?v k)" if "k < N" for k
  proof -
    let ?e = "(updatePhysics width height ^^ k) env"
    have r: "config ?e = config env" "globalSettings ?e = globalSettings env"
      using steps_read [where N = k and env = env and width = width and height = height]
      by simp_all
    have qk: "quietStep width height ?e i" using q that by simp
    have "balls (state (updatePhysics width height ?e)) ! i
        = integrate (config ?e) (globalSettings ?e) (balls (state ?e) ! i)"
      using g f qk by (intro quiet_step_velocity) (simp_all add: r)
    then show ?thesis
      using g f by (simp add: r integrate_no_forces)
  qed
  have main: "n \<le> N \<Longrightarrow> ?v n = (dragged ?ts ^^ n) (?v 0)" for n
  proof (induction n)
    case 0
    then show ?case by simp
  next
    case (Suc n)
    then show ?case using step [of n] by simp
  qed
  have still: "(dragged ?ts ^^ N) w = w" if "mag w \<le> 0.001 \<or> ?ts = 0" for w
  proof -
    have "dragged ?ts w = w" using that by (simp add: dragged_fixed_iff)
    then show ?thesis by (induction N) simp_all
  qed
  let ?start = "vel (balls (state env) ! i)"
  have a: "?v N = (dragged ?ts ^^ N) ?start" using main [of N] by simp
  have b: "mag ?start \<le> 0.001 \<or> ?ts = 0 \<longrightarrow> ?v N = ?start"
  proof
    assume "mag ?start \<le> 0.001 \<or> ?ts = 0"
    then have "(dragged ?ts ^^ N) ?start = ?start" by (rule still)
    then show "?v N = ?start" using a by simp
  qed
  have c: "\<forall>k < N. ?v (Suc k) = dragged ?ts (?v k)
      \<and> (?v (Suc k) = ?v k \<longleftrightarrow> mag (?v k) \<le> 0.001 \<or> ?ts = 0)"
    using step by (simp add: dragged_fixed_iff)
  show ?thesis by (intro conjI) (fact a, fact b, fact c)
qed

lemma upt_4: "[0..<4] = [0, 1, 2, 3]"
  by (simp add: upt_rec)

lemma square_vertices:
  "generatePolygon 4 R \<lparr>vx = 0, vy = 0\<rparr> 0
     = [\<lparr>vx = R, vy = 0\<rparr>, \<lparr>vx = 0, vy = R\<rparr>, \<lparr>vx = - R, vy = 0\<rparr>, \<lparr>vx = 0, vy = - R\<rparr>]"
proof -
  have c: "cos (3 * pi / 2) = 0" and s: "sin (3 * pi / 2) = - 1"
    using cos_3over2_pi sin_3over2_pi by simp_all
  show ?thesis
    by (simp add: generatePolygon_def upt_4 c s)
qed

text \<open>The square of the examples: its vertices, its normals, and when a ball is clear of it.\<close>

lemma mag_diag: "\<bar>x\<bar> = \<bar>y\<bar> \<Longrightarrow> mag \<lparr>vx = x, vy = y\<rparr> = \<bar>x\<bar> * sqrt 2"
proof -
  assume a: "\<bar>x\<bar> = \<bar>y\<bar>"
  have "y * y = x * x" using a by (metis abs_mult_self_eq)
  then have "x * x + y * y = (x * x) * 2" by simp
  then have "mag \<lparr>vx = x, vy = y\<rparr> = sqrt ((x * x) * 2)" by (simp add: mag_def)
  also have "\<dots> = sqrt (x * x) * sqrt 2" by (rule real_sqrt_mult)
  also have "sqrt (x * x) = \<bar>x\<bar>" by (rule real_sqrt_abs2)
  finally show ?thesis .
qed

lemma normalize_diag:
  assumes "\<bar>x\<bar> = \<bar>y\<bar>" and "x \<noteq> 0"
  shows "normalize \<lparr>vx = x, vy = y\<rparr> = \<lparr>vx = sgn x / sqrt 2, vy = sgn y / sqrt 2\<rparr>"
proof -
  have y: "y \<noteq> 0" using assms by auto
  have m: "mag \<lparr>vx = x, vy = y\<rparr> = \<bar>x\<bar> * sqrt 2" using assms(1) by (rule mag_diag)
  have m': "mag \<lparr>vx = x, vy = y\<rparr> = \<bar>y\<bar> * sqrt 2" using m assms(1) by simp
  have nz: "mag \<lparr>vx = x, vy = y\<rparr> \<noteq> 0" using m assms(2) by simp
  have "x / (\<bar>x\<bar> * sqrt 2) = sgn x / sqrt 2" using assms(2) by (simp add: sgn_real_def)
  moreover have "y / (\<bar>y\<bar> * sqrt 2) = sgn y / sqrt 2" using y by (simp add: sgn_real_def)
  ultimately show ?thesis
    using nz unfolding normalize_def Let_def by (simp add: m [symmetric]) (simp add: m')
qed

lemma diamond_normals:
  assumes "0 < R"
  shows "edgeNormal \<lparr>vx = R, vy = 0\<rparr> \<lparr>vx = 0, vy = R\<rparr> = \<lparr>vx = - 1 / sqrt 2, vy = - 1 / sqrt 2\<rparr>"
    and "edgeNormal \<lparr>vx = 0, vy = R\<rparr> \<lparr>vx = - R, vy = 0\<rparr> = \<lparr>vx = 1 / sqrt 2, vy = - 1 / sqrt 2\<rparr>"
    and "edgeNormal \<lparr>vx = - R, vy = 0\<rparr> \<lparr>vx = 0, vy = - R\<rparr> = \<lparr>vx = 1 / sqrt 2, vy = 1 / sqrt 2\<rparr>"
    and "edgeNormal \<lparr>vx = 0, vy = - R\<rparr> \<lparr>vx = R, vy = 0\<rparr> = \<lparr>vx = - 1 / sqrt 2, vy = 1 / sqrt 2\<rparr>"
  using assms
  by (simp_all add: edgeNormal_def sub_def Let_def normalize_diag dot_def mult_def
      zero_less_mult_iff mult_less_0_iff divide_less_0_iff)

lemma sqrt2_le_2: "sqrt 2 \<le> 2"
  by (rule real_le_lsqrt) simp_all

lemma over_sqrt2: "0 \<le> r \<Longrightarrow> 2 * r \<le> t \<Longrightarrow> \<not> t / sqrt 2 < r"
proof -
  assume r: "0 \<le> r" and t: "2 * r \<le> t"
  have "r * sqrt 2 \<le> r * 2" using r sqrt2_le_2 by (rule mult_left_mono [rotated])
  then have "r * sqrt 2 \<le> t" using t by simp
  then show ?thesis by (simp add: pos_divide_less_eq)
qed

lemma diamond_clear:
  assumes R: "0 < R" and r: "0 \<le> radius b"
    and room: "\<bar>vx (pos b)\<bar> + \<bar>vy (pos b)\<bar> + 2 * radius b \<le> R"
  shows "wallsClear [\<lparr>vx = R, vy = 0\<rparr>, \<lparr>vx = 0, vy = R\<rparr>, \<lparr>vx = - R, vy = 0\<rparr>, \<lparr>vx = 0, vy = - R\<rparr>] b"
proof -
  let ?x = "vx (pos b)" and ?y = "vy (pos b)"
  have d0: "dot (sub (pos b) \<lparr>vx = R, vy = 0\<rparr>) \<lparr>vx = - (1 / sqrt 2), vy = - (1 / sqrt 2)\<rparr>
      = (R - ?x - ?y) / sqrt 2"
    by (simp add: dot_def sub_def field_simps)
  have d1: "dot (sub (pos b) \<lparr>vx = 0, vy = R\<rparr>) \<lparr>vx = 1 / sqrt 2, vy = - (1 / sqrt 2)\<rparr>
      = (R + ?x - ?y) / sqrt 2"
    by (simp add: dot_def sub_def field_simps)
  have d2: "dot (sub (pos b) \<lparr>vx = - R, vy = 0\<rparr>) \<lparr>vx = 1 / sqrt 2, vy = 1 / sqrt 2\<rparr>
      = (R + ?x + ?y) / sqrt 2"
    by (simp add: dot_def sub_def field_simps)
  have d3: "dot (sub (pos b) \<lparr>vx = 0, vy = - R\<rparr>) \<lparr>vx = - (1 / sqrt 2), vy = 1 / sqrt 2\<rparr>
      = (R - ?x + ?y) / sqrt 2"
    by (simp add: dot_def sub_def field_simps)
  have c0: "\<not> (R - ?x - ?y) / sqrt 2 < radius b" using r room by (intro over_sqrt2) simp_all
  have c1: "\<not> (R + ?x - ?y) / sqrt 2 < radius b" using r room by (intro over_sqrt2) simp_all
  have c2: "\<not> (R + ?x + ?y) / sqrt 2 < radius b" using r room by (intro over_sqrt2) simp_all
  have c3: "\<not> (R - ?x + ?y) / sqrt 2 < radius b" using r room by (intro over_sqrt2) simp_all
  show ?thesis
    unfolding wallsClear_def
    by (simp add: upt_4 diamond_normals [OF R] d0 d1 d2 d3 c0 c1 c2 c3)
qed


lemma loneEnv_vertices:
  "localVerticesOf 1000 1000 (loneEnv x v)
     = [\<lparr>vx = 450, vy = 0\<rparr>, \<lparr>vx = 0, vy = 450\<rparr>, \<lparr>vx = - 450, vy = 0\<rparr>, \<lparr>vx = 0, vy = - 450\<rparr>]"
  by (simp add: localVerticesOf_def orDefault_def loneEnv_def exampleConfig_def exampleSettings_def
      shapeRadiusOf_def advanceRotation_def square_vertices)

lemma loneBall_integrate:
  "integrate exampleConfig exampleSettings (loneBall x v) = loneBall (x + loneDrag v) (loneDrag v)"
  by (simp add: integrate_def loneBall_def exampleConfig_def exampleSettings_def Let_def
      mult_def add_def mag_axis loneDrag_def algebra_simps)

lemma loneEnv_wallPass:
  assumes "\<bar>x + loneDrag v\<bar> + 10 \<le> 450"
  shows "wallPass 1000 1000 (loneEnv x v) = [loneBall (x + loneDrag v) (loneDrag v)]"
proof -
  have "wallsClear (localVerticesOf 1000 1000 (loneEnv x v))
      (loneBall (x + loneDrag v) (loneDrag v))"
    unfolding loneEnv_vertices using assms by (intro diamond_clear) (simp_all add: loneBall_def)
  then have "updateBall exampleConfig exampleSettings (localVerticesOf 1000 1000 (loneEnv x v))
      (loneBall x v) = loneBall (x + loneDrag v) (loneDrag v)"
    using updateBall_clear [of "localVerticesOf 1000 1000 (loneEnv x v)" exampleConfig
        exampleSettings "loneBall x v"]
    by (simp add: loneBall_integrate)
  then show ?thesis
    by (simp add: wallPass_def) (simp add: loneEnv_def)
qed

lemma loneEnv_quiet:
  assumes "\<bar>x + loneDrag v\<bar> + 10 \<le> 450"
  shows "quietStep 1000 1000 (loneEnv x v) 0"
proof -
  have c: "config (loneEnv x v) = exampleConfig"
    "globalSettings (loneEnv x v) = exampleSettings"
    "balls (state (loneEnv x v)) = [loneBall x v]"
    by (simp_all add: loneEnv_def)
  have w: "wallsClear (localVerticesOf 1000 1000 (loneEnv x v))
      (loneBall (x + loneDrag v) (loneDrag v))"
    unfolding loneEnv_vertices using assms by (intro diamond_clear) (simp_all add: loneBall_def)
  have a: "apart [loneBall (x + loneDrag v) (loneDrag v)]"
    by (simp add: apart_def)
  have m: "\<not> mag (pos (loneBall (x + loneDrag v) (loneDrag v))) > shapeRadiusOf 1000 1000 + 50"
    using assms by (simp add: loneBall_def mag_axis shapeRadiusOf_def)
  show ?thesis
    unfolding quietStep_def c loneEnv_wallPass [OF assms]
    using w a m by (simp add: loneBall_integrate)
qed

lemma loneEnv_step:
  assumes "\<bar>x + loneDrag v\<bar> + 10 \<le> 450"
  shows "updatePhysics 1000 1000 (loneEnv x v) = loneEnv (x + loneDrag v) (loneDrag v)"
proof -
  have m: "\<not> mag (pos (loneBall (x + loneDrag v) (loneDrag v))) > shapeRadiusOf 1000 1000 + 50"
    using assms by (simp add: loneBall_def mag_axis shapeRadiusOf_def)
  show ?thesis
    unfolding updatePhysics_def pairPass_def loneEnv_wallPass [OF assms]
    using m
    by (simp add: ballCollisions_def safetyNet_def Let_def)
      (simp add: loneEnv_def advanceRotation_def exampleConfig_def)
qed

text \<open>
  The claim C1 as the specification words it (the velocity is unchanged) fails for a
  single ball at the centre with velocity \<open>(1, 0)\<close>, zero gravity and zero friction: the
  step has no collision and the ball leaves it with velocity \<open>(0.997, 0)\<close>.
\<close>

theorem no_force_velocity_constant_counterexample:
  "gravity (config (loneEnv 0 1)) = 0
   \<and> friction (config (loneEnv 0 1)) = 0
   \<and> quietStep 1000 1000 (loneEnv 0 1) 0
   \<and> vel (balls (state (loneEnv 0 1)) ! 0) = \<lparr>vx = 1, vy = 0\<rparr>
   \<and> vel (balls (state (updatePhysics 1000 1000 (loneEnv 0 1))) ! 0) = \<lparr>vx = 997 / 1000, vy = 0\<rparr>
   \<and> vel (balls (state (updatePhysics 1000 1000 (loneEnv 0 1))) ! 0)
       \<noteq> vel (balls (state (loneEnv 0 1)) ! 0)"
proof -
  have d: "loneDrag 1 = 997 / 1000" by (simp add: loneDrag_def)
  have r: "\<bar>0 + loneDrag 1\<bar> + 10 \<le> 450" by (simp add: d)
  show ?thesis
    unfolding loneEnv_step [OF r] using loneEnv_quiet [OF r]
    by (simp add: d) (simp add: loneEnv_def loneBall_def exampleConfig_def)
qed

lemma dragged_axis:
  "dragged 1 \<lparr>vx = v, vy = 0\<rparr> = \<lparr>vx = loneDrag v, vy = 0\<rparr>"
  by (simp add: dragged_def loneDrag_def mag_axis mult_def)

text \<open>
  Two steps without collisions of a lone ball. With velocity \<open>(1, 0)\<close> the drag acts
  twice: \<open>0.997\<close> after the first step, \<open>0.997 * (1 - 0.003 * 0.997) = 0.994017973\<close>
  after the second. With velocity \<open>(0.001, 0)\<close>, at the threshold, the velocity stays.
\<close>

theorem no_force_velocity_drag_witness:
  "quietStep 1000 1000 (loneEnv 0 1) 0
   \<and> quietStep 1000 1000 (updatePhysics 1000 1000 (loneEnv 0 1)) 0
   \<and> vel (balls (state (loneEnv 0 1)) ! 0) = \<lparr>vx = 1, vy = 0\<rparr>
   \<and> vel (balls (state ((updatePhysics 1000 1000 ^^ 2) (loneEnv 0 1))) ! 0)
       = \<lparr>vx = 994017973 / 1000000000, vy = 0\<rparr>
   \<and> mag (vel (balls (state (loneEnv 0 (1 / 1000))) ! 0)) = 1 / 1000
   \<and> quietStep 1000 1000 (loneEnv 0 (1 / 1000)) 0
   \<and> quietStep 1000 1000 (updatePhysics 1000 1000 (loneEnv 0 (1 / 1000))) 0
   \<and> vel (balls (state ((updatePhysics 1000 1000 ^^ 2) (loneEnv 0 (1 / 1000)))) ! 0)
       = \<lparr>vx = 1 / 1000, vy = 0\<rparr>"
proof -
  have ts: "timeScale (globalSettings (loneEnv x v)) = 1" for x v
    by (simp add: loneEnv_def exampleSettings_def)
  have gf: "gravity (config (loneEnv x v)) = 0" "friction (config (loneEnv x v)) = 0" for x v
    by (simp_all add: loneEnv_def exampleConfig_def)
  have v0: "vel (balls (state (loneEnv x v)) ! 0) = \<lparr>vx = v, vy = 0\<rparr>" for x v
    by (simp add: loneEnv_def loneBall_def)
  have all2: "\<forall>k < 2. quietStep 1000 1000 ((updatePhysics 1000 1000 ^^ k) e) 0"
    if "quietStep 1000 1000 e 0" and "quietStep 1000 1000 (updatePhysics 1000 1000 e) 0" for e
    using that by (simp add: less_Suc_eq numeral_2_eq_2)
  have d1: "loneDrag 1 = 997 / 1000" by (simp add: loneDrag_def)
  have d2: "loneDrag (997 / 1000) = 994017973 / 1000000000" by (simp add: loneDrag_def)
  have r0: "\<bar>0 + loneDrag 1\<bar> + 10 \<le> 450" by (simp add: d1)
  have r1: "\<bar>997 / 1000 + loneDrag (997 / 1000)\<bar> + 10 \<le> 450" by (simp add: d2)
  have s1: "updatePhysics 1000 1000 (loneEnv 0 1) = loneEnv (997 / 1000) (997 / 1000)"
    using loneEnv_step [OF r0] by (simp add: d1)
  have q0: "quietStep 1000 1000 (loneEnv 0 1) 0" by (rule loneEnv_quiet [OF r0])
  have q1: "quietStep 1000 1000 (updatePhysics 1000 1000 (loneEnv 0 1)) 0"
    unfolding s1 by (rule loneEnv_quiet [OF r1])
  have fast: "vel (balls (state ((updatePhysics 1000 1000 ^^ 2) (loneEnv 0 1))) ! 0)
      = \<lparr>vx = 994017973 / 1000000000, vy = 0\<rparr>"
    using no_force_velocity_drag [OF gf all2 [OF q0 q1]]
    by (simp add: ts v0 numeral_2_eq_2 dragged_axis d1 d2)
  have e: "loneDrag (1 / 1000) = 1 / 1000" by (simp add: loneDrag_def)
  have t0: "\<bar>0 + loneDrag (1 / 1000)\<bar> + 10 \<le> 450" by (simp add: e)
  have t1: "\<bar>1 / 1000 + loneDrag (1 / 1000)\<bar> + 10 \<le> 450" by (simp add: e)
  have u1: "updatePhysics 1000 1000 (loneEnv 0 (1 / 1000)) = loneEnv (1 / 1000) (1 / 1000)"
    using loneEnv_step [OF t0] by (simp add: e)
  have p0: "quietStep 1000 1000 (loneEnv 0 (1 / 1000)) 0" by (rule loneEnv_quiet [OF t0])
  have p1: "quietStep 1000 1000 (updatePhysics 1000 1000 (loneEnv 0 (1 / 1000))) 0"
    unfolding u1 by (rule loneEnv_quiet [OF t1])
  have m: "mag (vel (balls (state (loneEnv 0 (1 / 1000))) ! 0)) = 1 / 1000"
    by (simp add: v0 mag_axis)
  have le: "mag (vel (balls (state (loneEnv 0 (1 / 1000))) ! 0)) \<le> 0.001
      \<or> timeScale (globalSettings (loneEnv 0 (1 / 1000))) = 0"
    unfolding m by simp
  have slow: "vel (balls (state ((updatePhysics 1000 1000 ^^ 2) (loneEnv 0 (1 / 1000)))) ! 0)
      = \<lparr>vx = 1 / 1000, vy = 0\<rparr>"
    using no_force_velocity_drag [OF gf all2 [OF p0 p1]] le unfolding v0 by blast
  show ?thesis
    by (intro conjI) (fact q0, fact q1, rule v0, fact fast, fact m, fact p0, fact p1, fact slow)
qed

section \<open>Two balls with the same centre\<close>

text \<open>
  Over the reals, with the \<open>normalize\<close> of the specification (the zero vector for the
  zero vector): the positions move apart along \<open>(1, 0)\<close> by half the sum of the radii
  each, and the velocities are not changed.
\<close>

lemma resolvePair_coincident:
  assumes "pos ballA = pos ballB" and "0 < radius ballA + radius ballB"
  shows "resolvePair ballA ballB
      = (ballA\<lparr>pos := add (pos ballA) \<lparr>vx = - ((radius ballA + radius ballB) / 2), vy = 0\<rparr>\<rparr>,
         ballB\<lparr>pos := add (pos ballB) \<lparr>vx = (radius ballA + radius ballB) / 2, vy = 0\<rparr>\<rparr>)"
  using assms
  by (simp add: resolvePair_def Let_def sub_def mag_zero normalize_def dot_def mult_def
      add_def diff_divide_distrib add_divide_distrib)

text \<open>
  C3: two balls with finite positions, velocities and radii, the same centre and
  positive radii. The distance is 0, the position correction uses the fallback normal
  \<open>(1, 0)\<close> (each ball moves by half the sum of the radii along it, in opposite
  directions), and after the collision logic no position and no velocity is NaN,
  whatever \<open>normalize\<close> returns for the zero vector: the velocity resolution is guarded
  by \<open>speedAlongNormal < 0\<close>, which is false for NaN.
\<close>

theorem coincident_pair_finite:
  assumes fa: "finiteBall ballA" and fb: "finiteBall ballB"
    and same: "npos ballA = npos ballB"
    and ra: "nless (Fin 0) (nradius ballA)" and rb: "nless (Fin 0) (nradius ballB)"
  shows "magN (subN (npos ballB) (npos ballA)) = Fin 0
       \<and> npos (fst (resolvePairN normalizeN ballA ballB))
           = addN (npos ballA)
               (multN \<lparr>nx = Fin 1, ny = Fin 0\<rparr>
                  (ndiv (nneg (nadd (nradius ballA) (nradius ballB))) (Fin 2)))
       \<and> npos (snd (resolvePairN normalizeN ballA ballB))
           = addN (npos ballB)
               (multN \<lparr>nx = Fin 1, ny = Fin 0\<rparr>
                  (ndiv (nadd (nradius ballA) (nradius ballB)) (Fin 2)))
       \<and> finiteBall (fst (resolvePairN normalizeN ballA ballB))
       \<and> finiteBall (snd (resolvePairN normalizeN ballA ballB))"
proof -
  obtain xa ya where pa: "npos ballA = \<lparr>nx = Fin xa, ny = Fin ya\<rparr>"
    using fa by (cases "npos ballA") (auto simp: finiteBall_def finiteVec_def nfinite_iff)
  obtain ua wa where va: "nvel ballA = \<lparr>nx = Fin ua, ny = Fin wa\<rparr>"
    using fa by (cases "nvel ballA") (auto simp: finiteBall_def finiteVec_def nfinite_iff)
  obtain ub wb where vb: "nvel ballB = \<lparr>nx = Fin ub, ny = Fin wb\<rparr>"
    using fb by (cases "nvel ballB") (auto simp: finiteBall_def finiteVec_def nfinite_iff)
  obtain r1 where r1: "nradius ballA = Fin r1" and p1: "0 < r1"
    using ra by (cases "nradius ballA") simp_all
  obtain r2 where r2: "nradius ballB = Fin r2" and p2: "0 < r2"
    using rb by (cases "nradius ballB") simp_all
  have pb: "npos ballB = \<lparr>nx = Fin xa, ny = Fin ya\<rparr>" using same pa by simp
  have d: "subN (npos ballB) (npos ballA) = \<lparr>nx = Fin 0, ny = Fin 0\<rparr>"
    by (simp add: subN_def pa pb)
  have m: "magN \<lparr>nx = Fin 0, ny = Fin 0\<rparr> = Fin 0"
    by (simp add: magN_def)
  obtain n1 n2 where n: "normalizeN \<lparr>nx = Fin 0, ny = Fin 0\<rparr> = \<lparr>nx = n1, ny = n2\<rparr>"
    by (cases "normalizeN \<lparr>nx = Fin 0, ny = Fin 0\<rparr>") simp
  show ?thesis
    using p1 p2
    by (cases n1; cases n2)
      (simp_all add: resolvePairN_def Let_def d m n pa pb va vb r1 r2 addN_def subN_def multN_def
        dotN_def finiteBall_def finiteVec_def)
qed

text \<open>
  With the unguarded \<open>normalize\<close>, which gives \<open>(NaN, NaN)\<close> for the zero vector: two
  balls of radius 5 at \<open>(3, 4)\<close> end at \<open>(-2, 4)\<close> and \<open>(8, 4)\<close>, with finite velocities.
\<close>

theorem coincident_pair_finite_witness:
  "naiveNormalize \<lparr>nx = Fin 0, ny = Fin 0\<rparr> = \<lparr>nx = NaN, ny = NaN\<rparr>
   \<and> npos (fst (resolvePairN naiveNormalize stackedA stackedB)) = \<lparr>nx = Fin (- 2), ny = Fin 4\<rparr>
   \<and> npos (snd (resolvePairN naiveNormalize stackedA stackedB)) = \<lparr>nx = Fin 8, ny = Fin 4\<rparr>
   \<and> finiteBall (fst (resolvePairN naiveNormalize stackedA stackedB))
   \<and> finiteBall (snd (resolvePairN naiveNormalize stackedA stackedB))"
proof -
  have fa: "finiteBall stackedA" and fb: "finiteBall stackedB"
    by (simp_all add: finiteBall_def finiteVec_def stackedA_def stackedB_def)
  have same: "npos stackedA = npos stackedB"
    by (simp add: stackedA_def stackedB_def)
  have ra: "nless (Fin 0) (nradius stackedA)" and rb: "nless (Fin 0) (nradius stackedB)"
    by (simp_all add: stackedA_def stackedB_def)
  have n: "naiveNormalize \<lparr>nx = Fin 0, ny = Fin 0\<rparr> = \<lparr>nx = NaN, ny = NaN\<rparr>"
    by (simp add: naiveNormalize_def magN_def)
  show ?thesis
    using coincident_pair_finite [OF fa fb same ra rb, of naiveNormalize] n
    by (simp add: stackedA_def stackedB_def addN_def multN_def)
qed

end
